theory Spec2Isabelle
  imports Complex_Main "HOL-Library.Word" "HOL-Library.Multiset"
begin

section \<open>Arrango: the timetable solver (core/solver/solver.go)\<close>

text \<open>
  The solver is a genetic algorithm over weekly timetables. This theory embeds its
  data model (common/models/input, common/models/output) and its functions
  (\<open>extractSubjectChunks\<close>, \<open>pickClassroom\<close>, \<open>pickLeastLoadedDay\<close>,
  \<open>randomIndividual\<close>, \<open>initializePopulation\<close>, \<open>fitness\<close>, \<open>crossover\<close>,
  \<open>mutate\<close>, \<open>Solve\<close>) and proves or refutes the properties the specification
  states about them.

  Conventions of the embedding:
  \<^item> Go's \<open>int\<close> and \<open>uint\<close> are the 64-bit types of the amd64 and arm64 ports:
    \<open>64 word\<close>, read with \<open>sint\<close> for \<open>int\<close> and with \<open>unat\<close> for \<open>uint\<close>.
    Lengths (\<open>len\<close>) and loop indices are \<open>nat\<close> or \<open>int\<close>; they never leave the
    range of \<open>int\<close>.
  \<^item> A pointer is an address or nil: \<open>addr option\<close>. The pointers of the data model
    point to strings (\<open>*Teacher\<close>, \<open>*Classroom\<close>, \<open>*GlobalSubject\<close>); what they
    point to is read from a \<open>memory\<close>, which the solver never writes. Go's \<open>==\<close> on
    pointers compares addresses.
  \<^item> A panic is a value of type \<open>panic\<close>; a function that can panic returns
    \<open>panic + 'a\<close>.
\<close>

subsection \<open>Fixed-size arrays\<close>

text \<open>\<open>[5]T\<close>: the allocation vector of a subject and the five weekdays of a timetable.\<close>

datatype 'a arr5 = Arr5 'a 'a 'a 'a 'a

fun list_of :: "'a arr5 \<Rightarrow> 'a list" where
  "list_of (Arr5 a b c d e) = [a, b, c, d, e]"

definition at5 :: "'a arr5 \<Rightarrow> nat \<Rightarrow> 'a" where
  "at5 a i = list_of a ! i"

text \<open>An assignment \<open>a[i] = x\<close>; every index the solver uses is below 5.\<close>

fun upd5 :: "'a arr5 \<Rightarrow> nat \<Rightarrow> 'a \<Rightarrow> 'a arr5" where
  "upd5 (Arr5 a b c d e) i x =
     (if i = 0 then Arr5 x b c d e
      else if i = 1 then Arr5 a x c d e
      else if i = 2 then Arr5 a b x d e
      else if i = 3 then Arr5 a b c x e
      else if i = 4 then Arr5 a b c d x
      else Arr5 a b c d e)"

subsection \<open>The problem instance (common/models/input)\<close>

type_synonym addr = nat
type_synonym uint = "64 word"
type_synonym go_int = "64 word"

record memory =
  teacher_at :: "addr \<Rightarrow> string"
  classroom_at :: "addr \<Rightarrow> string"

text \<open>
  \<open>input.Subject\<close>. \<open>SubjectPlacementType\<close> and \<open>SubjectsGroupType\<close> are string
  types in the source.
\<close>

record Subject =
  GlobalSubject :: "addr option"
  Allocation :: "uint arr5"
  Placement :: string
  Teacher :: "addr option"
  Classrooms :: "addr option list"
  Group :: string

record Division =
  Name :: string
  Weight :: uint
  Subjects :: "Subject list"

record InputData =
  GlobalSubjects :: "string list"
  Classrooms_all :: "string list"
  Teachers :: "string list"
  Divisions :: "Division list"

subsection \<open>The timetables (common/models/output)\<close>

text \<open>
  \<open>output.Subject\<close>, one lesson. \<open>Group\<close> points to the group tag of the chunk the
  lesson was built from; nothing compares or follows that pointer, so the field holds the
  tag itself.
\<close>

record Lesson =
  out_GlobalSubject :: "addr option"
  out_Teacher :: "addr option"
  out_Classroom :: "addr option"
  out_Group :: "string option"

text \<open>\<open>SubjectsGroup = [3]Subject\<close>, \<open>Day = []SubjectsGroup\<close>, \<open>Days = [5]Day\<close>.\<close>

datatype SubjectsGroup = SG Lesson Lesson Lesson

fun sg_list :: "SubjectsGroup \<Rightarrow> Lesson list" where
  "sg_list (SG a b c) = [a, b, c]"

type_synonym Day = "SubjectsGroup list"
type_synonym Days = "Day arr5"

record Individual =
  Timetables :: "Days list"

text \<open>The zero value of \<open>output.Subject\<close>: every pointer nil.\<close>

definition no_lesson :: Lesson where
  "no_lesson = \<lparr>out_GlobalSubject = None, out_Teacher = None, out_Classroom = None,
                 out_Group = None\<rparr>"

subsection \<open>extractSubjectChunks\<close>

record subjectChunk =
  subj :: Subject
  size_chunk :: uint

definition extractSubjectChunks :: "Division \<Rightarrow> subjectChunk list" where
  "extractSubjectChunks dv =
     fold (\<lambda>sj chunks.
             fold (\<lambda>alloc chunks.
                     if 0 < alloc then chunks @ [\<lparr>subj = sj, size_chunk = alloc\<rparr>]
                     else chunks)
                  (list_of (Allocation sj)) chunks)
          (Subjects dv) []"

subsection \<open>The random source (math/rand)\<close>

text \<open>
  The solver draws from the process-wide source of \<open>math/rand\<close>. A source is the
  sequence of outcomes it will produce (\<open>tape\<close>) and the number of draws made so far
  (\<open>pos\<close>): every sequence of results of \<open>rand.Intn\<close> and \<open>rand.Float64\<close> is the
  reading of some tape. \<open>rand.Intn n\<close> panics unless \<open>0 < n\<close> and returns a value below
  \<open>n\<close>; \<open>rand.Float64\<close> returns a multiple of \<open>2\<^sup>-\<^sup>5\<^sup>3\<close> in \<open>[0, 1)\<close>.
\<close>

datatype panic = IndexOutOfRange | IntnInvalidArgument | MakeSliceLenOutOfRange

record rand_source =
  tape :: "nat \<Rightarrow> nat"
  pos :: nat

definition draw :: "rand_source \<Rightarrow> nat \<times> rand_source" where
  "draw r = (tape r (pos r), r\<lparr>pos := Suc (pos r)\<rparr>)"

definition Intn :: "int \<Rightarrow> rand_source \<Rightarrow> panic + (nat \<times> rand_source)" where
  "Intn n r = (if n \<le> 0 then Inl IntnInvalidArgument
               else Inr (fst (draw r) mod nat n, snd (draw r)))"

definition Float64 :: "rand_source \<Rightarrow> real \<times> rand_source" where
  "Float64 r = (real_of_int (int (fst (draw r)) mod 2 ^ 53) / 2 ^ 53, snd (draw r))"

subsection \<open>pickClassroom, pickLeastLoadedDay, randomIndividual\<close>

text \<open>
  \<open>pickClassroom\<close> calls \<open>rand.Intn (len subj.Classrooms)\<close> under the guard
  \<open>len subj.Classrooms > 0\<close>, where \<open>Intn\<close> cannot panic: the draw is written out.
\<close>

definition pickClassroom :: "Subject \<Rightarrow> rand_source \<Rightarrow> addr option \<times> rand_source" where
  "pickClassroom sj r =
     (if 0 < length (Classrooms sj)
      then (Classrooms sj ! (fst (draw r) mod length (Classrooms sj)), snd (draw r))
      else (None, r))"

definition pickLeastLoadedDay :: "Days \<Rightarrow> nat" where
  "pickLeastLoadedDay days =
     snd (fold (\<lambda>i (minLoad, minDay).
                  if length (at5 days i) < minLoad then (length (at5 days i), i)
                  else (minLoad, minDay))
               [1..<5] (length (at5 days 0), 0))"

text \<open>The period the builder appends: \<open>sg[0]\<close> is the lesson, the other two are empty.\<close>

definition new_period :: "Subject \<Rightarrow> addr option \<Rightarrow> SubjectsGroup" where
  "new_period sj c =
     SG \<lparr>out_GlobalSubject = GlobalSubject sj, out_Teacher = Teacher sj,
         out_Classroom = c, out_Group = Some (Group sj)\<rparr> no_lesson no_lesson"

text \<open>The loop \<open>for i := uint(0); i < chunk.size; i++\<close>, by the number of rounds left.\<close>

fun place_hours :: "Subject \<Rightarrow> nat \<Rightarrow> Day \<times> rand_source \<Rightarrow> Day \<times> rand_source" where
  "place_hours sj 0 (d, r) = (d, r)"
| "place_hours sj (Suc n) (d, r) =
     (let (c, r') = pickClassroom sj r in place_hours sj n (d @ [new_period sj c], r'))"

definition place_chunk :: "subjectChunk \<Rightarrow> Days \<times> rand_source \<Rightarrow> Days \<times> rand_source" where
  "place_chunk chunk = (\<lambda>(divisionDays, r).
     let dayIdx = pickLeastLoadedDay divisionDays;
         (d, r') = place_hours (subj chunk) (unat (size_chunk chunk))
                     (at5 divisionDays dayIdx, r)
     in (upd5 divisionDays dayIdx d, r'))"

definition build_days :: "Division \<Rightarrow> rand_source \<Rightarrow> Days \<times> rand_source" where
  "build_days dv r = fold place_chunk (extractSubjectChunks dv) (Arr5 [] [] [] [] [], r)"

definition randomIndividual :: "InputData \<Rightarrow> rand_source \<Rightarrow> Individual \<times> rand_source" where
  "randomIndividual inp r =
     (let (timetables, r') =
            fold (\<lambda>dv (timetables, r).
                    let (divisionDays, r') = build_days dv r
                    in (timetables @ [divisionDays], r'))
                 (Divisions inp) ([], r)
      in (\<lparr>Timetables = timetables\<rparr>, r'))"

subsection \<open>fitness\<close>

text \<open>
  The first loop nest: teacher and classroom overlaps. \<open>teacherUsed\<close> and
  \<open>classroomUsed\<close> are maps from a slot key (weekday, period index) to a map that
  only ever holds \<open>true\<close>: a set of the names seen at that key.
\<close>

type_synonym slotKey = "nat \<times> nat"

record overlaps =
  score :: go_int
  teacherUsed :: "slotKey \<rightharpoonup> string set"
  classroomUsed :: "slotKey \<rightharpoonup> string set"

definition mark_teacher :: "memory \<Rightarrow> slotKey \<Rightarrow> Lesson \<Rightarrow> overlaps \<Rightarrow> overlaps" where
  "mark_teacher mem tk l st =
     (case out_Teacher l of
        None \<Rightarrow> st
      | Some p \<Rightarrow>
          let tu = (if teacherUsed st tk = None then (teacherUsed st)(tk \<mapsto> {})
                    else teacherUsed st);
              seen = the (tu tk)
          in if teacher_at mem p \<in> seen
             then st\<lparr>score := score st + 1000, teacherUsed := tu\<rparr>
             else st\<lparr>teacherUsed := tu(tk \<mapsto> insert (teacher_at mem p) seen)\<rparr>)"

definition mark_classroom :: "memory \<Rightarrow> slotKey \<Rightarrow> Lesson \<Rightarrow> overlaps \<Rightarrow> overlaps" where
  "mark_classroom mem tk l st =
     (case out_Classroom l of
        None \<Rightarrow> st
      | Some p \<Rightarrow>
          let cu = (if classroomUsed st tk = None then (classroomUsed st)(tk \<mapsto> {})
                    else classroomUsed st);
              seen = the (cu tk)
          in if classroom_at mem p \<in> seen
             then st\<lparr>score := score st + 1000, classroomUsed := cu\<rparr>
             else st\<lparr>classroomUsed := cu(tk \<mapsto> insert (classroom_at mem p) seen)\<rparr>)"

definition check_lesson :: "memory \<Rightarrow> slotKey \<Rightarrow> Lesson \<Rightarrow> overlaps \<Rightarrow> overlaps" where
  "check_lesson mem tk l st =
     (if out_GlobalSubject l = None then st
      else mark_classroom mem tk l (mark_teacher mem tk l st))"

definition check_days :: "memory \<Rightarrow> Days \<Rightarrow> overlaps \<Rightarrow> overlaps" where
  "check_days mem divTT st =
     fold (\<lambda>day st.
             fold (\<lambda>(slot, sg) st. fold (check_lesson mem (day, slot)) (sg_list sg) st)
                  (enumerate 0 (at5 divTT day)) st)
          [0..<5] st"

definition check_overlaps :: "memory \<Rightarrow> Individual \<Rightarrow> overlaps" where
  "check_overlaps mem ind =
     fold (check_days mem) (Timetables ind)
          \<lparr>score = 0, teacherUsed = Map.empty, classroomUsed = Map.empty\<rparr>"

text \<open>
  The second loop nest: allocations. \<open>count_hour\<close> is the loop over \<open>remaining\<close> for
  one lesson; the comparisons are comparisons of pointers.
\<close>

definition count_hour :: "Lesson \<Rightarrow> subjectChunk list \<Rightarrow> subjectChunk list" where
  "count_hour l remaining =
     (if out_GlobalSubject l = None then remaining
      else map (\<lambda>c. if GlobalSubject (subj c) = out_GlobalSubject l \<and>
                       Teacher (subj c) = out_Teacher l
                    then (if 0 < size_chunk c then c\<lparr>size_chunk := size_chunk c - 1\<rparr> else c)
                    else c) remaining)"

definition count_days :: "Days \<Rightarrow> subjectChunk list \<Rightarrow> subjectChunk list" where
  "count_days tt remaining =
     fold (\<lambda>day remaining.
             fold (\<lambda>sg remaining. fold count_hour (sg_list sg) remaining)
                  (at5 tt day) remaining)
          [0..<5] remaining"

text \<open>\<open>score += int(c.size) * 500\<close>: the conversion keeps the bits, the product wraps.\<close>

definition unmet_penalty :: "subjectChunk list \<Rightarrow> go_int \<Rightarrow> go_int" where
  "unmet_penalty remaining sc =
     fold (\<lambda>c sc. if 0 < size_chunk c then sc + size_chunk c * 500 else sc) remaining sc"

text \<open>\<open>ind.Timetables[dIdx]\<close> panics when the individual has no timetable \<open>dIdx\<close>.\<close>

fun check_allocations :: "Individual \<Rightarrow> Division list \<Rightarrow> nat \<Rightarrow> go_int \<Rightarrow> panic + go_int" where
  "check_allocations ind [] dIdx sc = Inr sc"
| "check_allocations ind (dv # dvs) dIdx sc =
     (if length (Timetables ind) \<le> dIdx then Inl IndexOutOfRange
      else check_allocations ind dvs (Suc dIdx)
             (unmet_penalty (count_days (Timetables ind ! dIdx) (extractSubjectChunks dv)) sc))"

text \<open>The third loop: the spread of the day loads of one division.\<close>

definition balance_penalty :: "Days \<Rightarrow> go_int \<Rightarrow> go_int" where
  "balance_penalty tt sc =
     (let dayCounts = map (\<lambda>d. int (length d)) (list_of tt);
          (minC, maxC) =
             fold (\<lambda>c (minC, maxC). (if c < minC then c else minC, if c > maxC then c else maxC))
                  (tl dayCounts) (hd dayCounts, hd dayCounts)
      in if maxC - minC > 4 then sc + word_of_int ((maxC - minC) * 5) else sc)"

definition fitness :: "memory \<Rightarrow> Individual \<Rightarrow> InputData \<Rightarrow> panic + go_int" where
  "fitness mem ind inp =
     (case check_allocations ind (Divisions inp) 0 (score (check_overlaps mem ind)) of
        Inl e \<Rightarrow> Inl e
      | Inr sc \<Rightarrow> Inr (fold balance_penalty (Timetables ind) sc))"

subsection \<open>Solve: the evolutionary loop\<close>

text \<open>
  A \<open>Day\<close> is a slice: a reference to a backing array. \<open>copy(child.Timetables,
  p1.Timetables)\<close> in \<open>crossover\<close> copies the five slice headers of every division, not the
  arrays behind them, and \<open>mutate\<close> swaps two elements inside a backing array. Which
  individuals see that swap depends on which of them hold the same reference, so the loop is
  modelled over a store: \<open>cells\<close> maps the address of a backing array to its contents, a
  \<open>DaysRef\<close> holds the five addresses of a division's days, and \<open>load\<close> reads an
  individual out of the store. None of the slices is appended to after the builder returns,
  so a slice header is determined by its address.
\<close>

record Solver =
  PopulationSize :: int
  Generations :: int
  MutationRate :: real

record OutputData =
  DivisionsTimetables :: "Days list"

definition and_then :: "panic + 'a \<Rightarrow> ('a \<Rightarrow> panic + 'b) \<Rightarrow> panic + 'b" where
  "and_then m f = (case m of Inl e \<Rightarrow> Inl e | Inr x \<Rightarrow> f x)"

record store =
  cells :: "addr \<Rightarrow> Day"
  next_addr :: addr

type_synonym DaysRef = "addr arr5"
type_synonym IndividualRef = "DaysRef list"

definition empty_store :: store where
  "empty_store = \<lparr>cells = (\<lambda>a. []), next_addr = 0\<rparr>"

fun load_days :: "store \<Rightarrow> DaysRef \<Rightarrow> Days" where
  "load_days h (Arr5 a b c d e) =
     Arr5 (cells h a) (cells h b) (cells h c) (cells h d) (cells h e)"

definition load :: "store \<Rightarrow> IndividualRef \<Rightarrow> Individual" where
  "load h ind = \<lparr>Timetables = map (load_days h) ind\<rparr>"

definition new_slice :: "Day \<Rightarrow> store \<Rightarrow> addr \<times> store" where
  "new_slice d h =
     (next_addr h, \<lparr>cells = (cells h)(next_addr h := d), next_addr = Suc (next_addr h)\<rparr>)"

fun store_days :: "Days \<Rightarrow> store \<Rightarrow> DaysRef \<times> store" where
  "store_days (Arr5 a b c d e) h =
     (let (pa, h1) = new_slice a h; (pb, h2) = new_slice b h1; (pc, h3) = new_slice c h2;
          (pd, h4) = new_slice d h3; (pe, h5) = new_slice e h4
      in (Arr5 pa pb pc pd pe, h5))"

definition store_individual :: "Individual \<Rightarrow> store \<Rightarrow> IndividualRef \<times> store" where
  "store_individual ind h =
     fold (\<lambda>tt (refs, h). let (ref, h') = store_days tt h in (refs @ [ref], h'))
          (Timetables ind) ([], h)"

definition randomIndividual_ref ::
  "InputData \<Rightarrow> store \<times> rand_source \<Rightarrow> IndividualRef \<times> store \<times> rand_source" where
  "randomIndividual_ref inp = (\<lambda>(h, r).
     let (ind, r') = randomIndividual inp r; (ref, h') = store_individual ind h
     in (ref, h', r'))"

fun fill_population ::
  "InputData \<Rightarrow> nat \<Rightarrow> IndividualRef list \<times> store \<times> rand_source
   \<Rightarrow> IndividualRef list \<times> store \<times> rand_source" where
  "fill_population inp 0 st = st"
| "fill_population inp (Suc n) (pop, h, r) =
     (let (ind, h', r') = randomIndividual_ref inp (h, r)
      in fill_population inp n (pop @ [ind], h', r'))"

text \<open>
  \<open>make([]Individual, s.PopulationSize)\<close> panics for a negative length and for a length whose
  24-byte elements exceed the \<open>2^48\<close> bytes the allocator can address. (Running out of
  memory below that bound is not a panic and is outside the model.)
\<close>

definition initializePopulation ::
  "Solver \<Rightarrow> InputData \<Rightarrow> store \<times> rand_source
   \<Rightarrow> panic + (IndividualRef list \<times> store \<times> rand_source)" where
  "initializePopulation s inp = (\<lambda>(h, r).
     if PopulationSize s < 0 \<or> 2 ^ 48 < 24 * PopulationSize s then Inl MakeSliceLenOutOfRange
     else Inr (fill_population inp (nat (PopulationSize s)) ([], h, r)))"

fun cross_days ::
  "nat \<Rightarrow> nat \<Rightarrow> IndividualRef \<Rightarrow> IndividualRef \<times> rand_source
   \<Rightarrow> panic + (IndividualRef \<times> rand_source)" where
  "cross_days 0 dx p2 (child, r) = Inr (child, r)"
| "cross_days (Suc n) dx p2 (child, r) =
     and_then (Intn 5 r) (\<lambda>(day, r').
       if length p2 \<le> dx then Inl IndexOutOfRange
       else cross_days n dx p2
              (child[dx := upd5 (child ! dx) day (at5 (p2 ! dx) day)], r'))"

definition crossover ::
  "IndividualRef \<Rightarrow> IndividualRef \<Rightarrow> rand_source \<Rightarrow> panic + (IndividualRef \<times> rand_source)" where
  "crossover p1 p2 r =
     (let child = p1
      in if 0 < length p1
         then and_then (Intn (int (length p1)) r) (\<lambda>(dx, r'). cross_days 2 dx p2 (child, r'))
         else Inr (child, r))"

definition mutate ::
  "Solver \<Rightarrow> IndividualRef \<Rightarrow> store \<times> rand_source \<Rightarrow> panic + (store \<times> rand_source)" where
  "mutate s ind = (\<lambda>(h, r).
     let (x, r0) = Float64 r
     in if x > MutationRate s then Inr (h, r0)
        else and_then (Intn (int (length ind)) r0) (\<lambda>(dx, r1).
             and_then (Intn 5 r1) (\<lambda>(day, r2).
               let a = at5 (ind ! dx) day; d = cells h a
               in if 1 < length d
                  then and_then (Intn (int (length d)) r2) (\<lambda>(slot1, r3).
                       and_then (Intn (int (length d)) r3) (\<lambda>(slot2, r4).
                         Inr (h\<lparr>cells := (cells h)(a := d[slot1 := d ! slot2, slot2 := d ! slot1])\<rparr>,
                              r4)))
                  else Inr (h, r2))))"

type_synonym fitInd = "IndividualRef \<times> go_int"

fun evaluate ::
  "memory \<Rightarrow> InputData \<Rightarrow> store \<Rightarrow> IndividualRef list
   \<Rightarrow> fitInd list \<times> IndividualRef \<times> go_int
   \<Rightarrow> panic + (fitInd list \<times> IndividualRef \<times> go_int)" where
  "evaluate mem inp h [] acc = Inr acc"
| "evaluate mem inp h (ind # pop) (fits, bestIndividual, bestFitness) =
     and_then (fitness mem (load h ind) inp) (\<lambda>f.
       if f <s bestFitness
       then (if f = 0 then Inr (fits @ [(ind, f)], ind, f)
             else evaluate mem inp h pop (fits @ [(ind, f)], ind, f))
       else evaluate mem inp h pop (fits @ [(ind, f)], bestIndividual, bestFitness))"

text \<open>
  \<open>sort.Slice\<close> with \<open>fits[i].fitness < fits[j].fitness\<close>. For a slice of at most 6
  elements the library runs its insertion sort, which is what \<open>sort_fits\<close> is: an element
  moves in front of the elements with a strictly greater score. For longer slices the order
  in which the library leaves elements of equal score is not specified; scores that are
  pairwise different leave one order only (\<open>sort_fits_unique\<close> below), and the runs examined
  below have populations of at most 2 individuals with different scores.
\<close>

fun insert_fit :: "fitInd \<Rightarrow> fitInd list \<Rightarrow> fitInd list" where
  "insert_fit x [] = [x]"
| "insert_fit x (y # ys) = (if snd x <s snd y then x # y # ys else y # insert_fit x ys)"

definition sort_fits :: "fitInd list \<Rightarrow> fitInd list" where
  "sort_fits fits = fold insert_fit fits []"

definition select_elite :: "Solver \<Rightarrow> fitInd list \<Rightarrow> panic + IndividualRef list" where
  "select_elite s fits =
     (if int (length fits) < PopulationSize s div 2 then Inl IndexOutOfRange
      else Inr (map fst (take (nat (PopulationSize s div 2)) fits)))"

definition pick_parent :: "Solver \<Rightarrow> fitInd list \<Rightarrow> rand_source \<Rightarrow> panic + (IndividualRef \<times> rand_source)" where
  "pick_parent s fits r =
     and_then (Intn (PopulationSize s div 2) r) (\<lambda>(i, r').
       if length fits \<le> i then Inl IndexOutOfRange else Inr (fst (fits ! i), r'))"

fun reproduce ::
  "Solver \<Rightarrow> fitInd list \<Rightarrow> nat \<Rightarrow> IndividualRef list \<times> store \<times> rand_source
   \<Rightarrow> panic + (IndividualRef list \<times> store \<times> rand_source)" where
  "reproduce s fits 0 st = Inr st"
| "reproduce s fits (Suc n) (nextPop, h, r) =
     and_then (pick_parent s fits r) (\<lambda>(p1, r1).
     and_then (pick_parent s fits r1) (\<lambda>(p2, r2).
     and_then (crossover p1 p2 r2) (\<lambda>(child, r3).
     and_then (mutate s child (h, r3)) (\<lambda>(h', r4).
       reproduce s fits n (nextPop @ [child], h', r4)))))"

fun generations ::
  "memory \<Rightarrow> Solver \<Rightarrow> InputData \<Rightarrow> nat
   \<Rightarrow> IndividualRef list \<times> store \<times> rand_source \<times> IndividualRef \<times> go_int
   \<Rightarrow> panic + (store \<times> IndividualRef)" where
  "generations mem s inp 0 (pop, h, r, bestIndividual, bestFitness) = Inr (h, bestIndividual)"
| "generations mem s inp (Suc n) (pop, h, r, bestIndividual, bestFitness) =
     and_then (evaluate mem inp h pop ([], bestIndividual, bestFitness))
       (\<lambda>(fits, bestIndividual, bestFitness).
          if bestFitness = 0 then Inr (h, bestIndividual)
          else and_then (select_elite s (sort_fits fits)) (\<lambda>nextPop.
               and_then (reproduce s (sort_fits fits)
                           (nat (PopulationSize s - int (length nextPop))) (nextPop, h, r))
                 (\<lambda>(pop', h', r').
                    generations mem s inp n (pop', h', r', bestIndividual, bestFitness))))"

text \<open>
  \<open>rand.Seed(time.Now().UnixNano())\<close>: \<open>now\<close> is the reading of the clock, \<open>seeded\<close> the
  generator of \<open>math/rand\<close> (from a seed to the outcomes of the seeded source), and
  \<open>global\<close> the state in which the caller left the process-wide source; the call replaces
  that state. \<open>pop[0]\<close> panics on an empty population.
\<close>

definition Solve ::
  "(int \<Rightarrow> nat \<Rightarrow> nat) \<Rightarrow> memory \<Rightarrow> Solver \<Rightarrow> InputData \<Rightarrow> rand_source \<Rightarrow> int
   \<Rightarrow> panic + OutputData" where
  "Solve seeded mem s inp global now =
     (let r = \<lparr>tape = seeded now, pos = 0\<rparr>
      in and_then (initializePopulation s inp (empty_store, r)) (\<lambda>(pop, h, r).
           if pop = [] then Inl IndexOutOfRange
           else and_then (fitness mem (load h (pop ! 0)) inp) (\<lambda>bestFitness.
                and_then (generations mem s inp (nat (Generations s))
                            (pop, h, r, pop ! 0, bestFitness)) (\<lambda>(h', bestIndividual).
                  Inr \<lparr>DivisionsTimetables = Timetables (load h' bestIndividual)\<rparr>))))"

section \<open>Notions of the specification\<close>

text \<open>
  The words of the specification, on the model: the day loads of a division and their
  spread; the periods of a timetable; the placed lessons (a lesson with a subject) with their
  slot keys; the teacher and classroom occurrences the evaluator records and how many of them
  are repeats; the placed hours that the evaluator counts for a chunk (same subject and
  teacher pointers) and the hours a chunk is short of; the sum of the three penalties; and
  the two ways of changing one lesson of an Individual.
\<close>

definition day_counts :: "Days \<Rightarrow> nat list" where
  "day_counts tt = map length (list_of tt)"

definition spread :: "Days \<Rightarrow> nat" where
  "spread tt = Max (set (day_counts tt)) - Min (set (day_counts tt))"

definition largest_chunk :: "subjectChunk list \<Rightarrow> nat" where
  "largest_chunk chunks = fold max (map (\<lambda>c. unat (size_chunk c)) chunks) 0"

definition periods :: "Days \<Rightarrow> SubjectsGroup list" where
  "periods tt = concat (list_of tt)"

fun without_room :: "SubjectsGroup \<Rightarrow> SubjectsGroup" where
  "without_room (SG a b c) = SG (a\<lparr>out_Classroom := None\<rparr>) b c"

definition hours_required :: "Subject \<Rightarrow> nat" where
  "hours_required sj = sum_list (map unat (list_of (Allocation sj)))"

definition slots_of :: "Days \<Rightarrow> (slotKey \<times> Lesson) list" where
  "slots_of tt =
     concat (map (\<lambda>day. concat (map (\<lambda>(slot, sg). map (\<lambda>l. ((day, slot), l)) (sg_list sg))
                                     (enumerate 0 (at5 tt day))))
                 [0..<5])"

definition all_slots :: "Individual \<Rightarrow> (slotKey \<times> Lesson) list" where
  "all_slots ind = concat (map slots_of (Timetables ind))"

definition placed :: "Lesson \<Rightarrow> bool" where
  "placed l = (out_GlobalSubject l \<noteq> None)"

definition teacher_event :: "memory \<Rightarrow> slotKey \<times> Lesson \<Rightarrow> (slotKey \<times> string) option" where
  "teacher_event mem = (\<lambda>(k, l).
     if placed l then map_option (\<lambda>p. (k, teacher_at mem p)) (out_Teacher l) else None)"

definition classroom_event :: "memory \<Rightarrow> slotKey \<times> Lesson \<Rightarrow> (slotKey \<times> string) option" where
  "classroom_event mem = (\<lambda>(k, l).
     if placed l then map_option (\<lambda>p. (k, classroom_at mem p)) (out_Classroom l) else None)"

definition teacher_slots :: "memory \<Rightarrow> Individual \<Rightarrow> (slotKey \<times> string) list" where
  "teacher_slots mem ind = List.map_filter (teacher_event mem) (all_slots ind)"

definition classroom_slots :: "memory \<Rightarrow> Individual \<Rightarrow> (slotKey \<times> string) list" where
  "classroom_slots mem ind = List.map_filter (classroom_event mem) (all_slots ind)"

definition repeats :: "'a list \<Rightarrow> nat" where
  "repeats xs = length xs - length (remdups xs)"

fun hits :: "'a set \<Rightarrow> 'a list \<Rightarrow> nat" where
  "hits U [] = 0"
| "hits U (x # xs) = (if x \<in> U then 1 else 0) + hits (insert x U) xs"

definition seen_t :: "overlaps \<Rightarrow> (slotKey \<times> string) set" where
  "seen_t st = {(k, t). \<exists>S. teacherUsed st k = Some S \<and> t \<in> S}"

definition seen_c :: "overlaps \<Rightarrow> (slotKey \<times> string) set" where
  "seen_c st = {(k, t). \<exists>S. classroomUsed st k = Some S \<and> t \<in> S}"

definition hit :: "'a set \<Rightarrow> 'a option \<Rightarrow> nat" where
  "hit U e = (case e of None \<Rightarrow> 0 | Some x \<Rightarrow> if x \<in> U then 1 else 0)"

definition matches :: "subjectChunk \<Rightarrow> Lesson \<Rightarrow> bool" where
  "matches c l = (placed l \<and> GlobalSubject (subj c) = out_GlobalSubject l \<and>
                  Teacher (subj c) = out_Teacher l)"

definition hours_placed :: "Days \<Rightarrow> subjectChunk \<Rightarrow> nat" where
  "hours_placed tt c = length (filter (\<lambda>(k, l). matches c l) (slots_of tt))"

definition shortfall :: "Days \<Rightarrow> subjectChunk \<Rightarrow> nat" where
  "shortfall tt c = unat (size_chunk c) - hours_placed tt c"

definition unmet_hours :: "Division \<Rightarrow> Days \<Rightarrow> nat" where
  "unmet_hours dv tt = sum_list (map (shortfall tt) (extractSubjectChunks dv))"

definition imbalance :: "Days \<Rightarrow> nat" where
  "imbalance tt = (if 4 < spread tt then spread tt else 0)"

definition penalty_total :: "memory \<Rightarrow> Individual \<Rightarrow> InputData \<Rightarrow> nat" where
  "penalty_total mem ind inp =
     1000 * (repeats (teacher_slots mem ind) + repeats (classroom_slots mem ind))
     + 500 * sum_list (map (\<lambda>(dv, tt). unmet_hours dv tt)
                           (zip (Divisions inp) (Timetables ind)))
     + 5 * sum_list (map imbalance (Timetables ind))"

definition less_hours :: "nat \<Rightarrow> subjectChunk \<Rightarrow> subjectChunk" where
  "less_hours n c = c\<lparr>size_chunk := of_nat (unat (size_chunk c) - n)\<rparr>"

fun sg_upd :: "SubjectsGroup \<Rightarrow> nat \<Rightarrow> Lesson \<Rightarrow> SubjectsGroup" where
  "sg_upd (SG a b c) k l =
     (if k = 0 then SG l b c else if k = 1 then SG a l c else if k = 2 then SG a b l
      else SG a b c)"

definition lesson_at :: "Individual \<Rightarrow> nat \<Rightarrow> nat \<Rightarrow> nat \<Rightarrow> nat \<Rightarrow> Lesson" where
  "lesson_at ind d day slot k = sg_list (at5 (Timetables ind ! d) day ! slot) ! k"

definition days_set_lesson :: "Days \<Rightarrow> nat \<Rightarrow> nat \<Rightarrow> nat \<Rightarrow> Lesson \<Rightarrow> Days" where
  "days_set_lesson tt day slot k l =
     upd5 tt day ((at5 tt day)[slot := sg_upd (at5 tt day ! slot) k l])"

definition set_lesson :: "Individual \<Rightarrow> nat \<Rightarrow> nat \<Rightarrow> nat \<Rightarrow> nat \<Rightarrow> Lesson \<Rightarrow> Individual" where
  "set_lesson ind d day slot k l =
     ind\<lparr>Timetables := (Timetables ind)[d := days_set_lesson (Timetables ind ! d) day slot k l]\<rparr>"

definition is_position :: "Individual \<Rightarrow> nat \<Rightarrow> nat \<Rightarrow> nat \<Rightarrow> nat \<Rightarrow> bool" where
  "is_position ind d day slot k =
     (d < length (Timetables ind) \<and> day < 5 \<and>
      slot < length (at5 (Timetables ind ! d) day) \<and> k < 3)"

definition day_slots :: "nat \<Rightarrow> nat \<Rightarrow> Day \<Rightarrow> (slotKey \<times> Lesson) list" where
  "day_slots day n dl =
     concat (map (\<lambda>(slot, sg). map (\<lambda>l. ((day, slot), l)) (sg_list sg)) (enumerate n dl))"

definition event_mset :: "('a \<Rightarrow> 'b option) \<Rightarrow> 'a \<Rightarrow> 'b multiset" where
  "event_mset f a = (case f a of None \<Rightarrow> {#} | Some x \<Rightarrow> {#x#})"

definition unshared :: "memory \<Rightarrow> Individual \<Rightarrow> slotKey \<Rightarrow> Lesson \<Rightarrow> bool" where
  "unshared mem ind key l =
     ((case out_Teacher l of None \<Rightarrow> True
       | Some p \<Rightarrow> count_list (teacher_slots mem ind) (key, teacher_at mem p) = 1) \<and>
      (case out_Classroom l of None \<Rightarrow> True
       | Some p \<Rightarrow> count_list (classroom_slots mem ind) (key, classroom_at mem p) = 1))"

definition counted_chunks :: "Division \<Rightarrow> Days \<Rightarrow> Lesson \<Rightarrow> subjectChunk list" where
  "counted_chunks dv tt l =
     filter (\<lambda>c. matches c l \<and> hours_placed tt c \<le> unat (size_chunk c))
            (extractSubjectChunks dv)"

definition allocations_met :: "Individual \<Rightarrow> InputData \<Rightarrow> bool" where
  "allocations_met ind inp =
     list_all (\<lambda>(dv, tt). list_all (\<lambda>c. unat (size_chunk c) \<le> hours_placed tt c)
                                      (extractSubjectChunks dv))
              (zip (Divisions inp) (Timetables ind))"

definition balanced :: "Individual \<Rightarrow> bool" where
  "balanced ind = list_all (\<lambda>tt. spread tt \<le> 4) (Timetables ind)"

definition perfect :: "memory \<Rightarrow> Individual \<Rightarrow> InputData \<Rightarrow> bool" where
  "perfect mem ind inp =
     (distinct (teacher_slots mem ind) \<and> distinct (classroom_slots mem ind) \<and>
      allocations_met ind inp \<and> balanced ind)"

definition lessons_in :: "subjectChunk \<Rightarrow> SubjectsGroup \<Rightarrow> nat" where
  "lessons_in c sg = length (filter (matches c) (sg_list sg))"

definition same_requirement :: "Subject \<Rightarrow> Subject \<Rightarrow> bool" where
  "same_requirement sj sj' = (GlobalSubject sj' = GlobalSubject sj \<and> Teacher sj' = Teacher sj)"

definition append_period :: "Individual \<Rightarrow> nat \<Rightarrow> nat \<Rightarrow> Lesson \<Rightarrow> Individual" where
  "append_period ind d day l =
     ind\<lparr>Timetables := (Timetables ind)[d := upd5 (Timetables ind ! d) day
              (at5 (Timetables ind ! d) day @ [SG l no_lesson no_lesson])]\<rparr>"

definition adds_lesson :: "Individual \<Rightarrow> nat \<Rightarrow> nat \<Rightarrow> nat \<Rightarrow> Lesson \<Rightarrow> Individual \<Rightarrow> bool" where
  "adds_lesson ind d day slot l ind' =
     (d < length (Timetables ind) \<and> day < 5 \<and>
      (if slot < length (at5 (Timetables ind ! d) day)
       then list_ex (\<lambda>k. \<not> placed (lesson_at ind d day slot k) \<and>
                          ind' = set_lesson ind d day slot k l) [0..<3]
       else slot = length (at5 (Timetables ind ! d) day) \<and> ind' = append_period ind d day l))"

definition teacher_twice :: "memory \<Rightarrow> Individual \<Rightarrow> slotKey \<Rightarrow> Lesson \<Rightarrow> bool" where
  "teacher_twice mem ind key l =
     (placed l \<and>
      (case out_Teacher l of None \<Rightarrow> False
       | Some p \<Rightarrow> (key, teacher_at mem p) \<in> set (teacher_slots mem ind)))"

definition room_twice :: "memory \<Rightarrow> Individual \<Rightarrow> slotKey \<Rightarrow> Lesson \<Rightarrow> nat" where
  "room_twice mem ind key l =
     (case out_Classroom l of None \<Rightarrow> 0
      | Some q \<Rightarrow> if (key, classroom_at mem q) \<in> set (classroom_slots mem ind) then 1 else 0)"

text \<open>
  The scores of the initial population, and the first parent as it stands in the store after
  one round of the reproduction loop (\<open>child := s.crossover(p1, p2); s.mutate(&child)\<close>).
\<close>

definition initial_scores ::
  "memory \<Rightarrow> Solver \<Rightarrow> InputData \<Rightarrow> rand_source \<Rightarrow> (panic + go_int) list" where
  "initial_scores mem s inp r =
     (case initializePopulation s inp (empty_store, r) of
        Inl e \<Rightarrow> []
      | Inr (pop, h, r') \<Rightarrow> map (\<lambda>ind. fitness mem (load h ind) inp) pop)"

definition parent_after ::
  "Solver \<Rightarrow> IndividualRef \<Rightarrow> IndividualRef \<Rightarrow> store \<times> rand_source \<Rightarrow> panic + Individual" where
  "parent_after s p1 p2 = (\<lambda>(h, r).
     and_then (crossover p1 p2 r) (\<lambda>(child, r').
     and_then (mutate s child (h, r')) (\<lambda>(h', r'').
       Inr (load h' p1))))"

section \<open>Problem instances and timetables used as examples\<close>

text \<open>
  A school with two teachers and three classrooms. Pointers are addresses: teacher 0 is
  \<open>LJ\<close>, teacher 1 is \<open>PO\<close>; classrooms 0, 1, 2 are \<open>12\<close>, \<open>14\<close>, \<open>47\<close>.
\<close>

definition school :: memory where
  "school = \<lparr>teacher_at = (\<lambda>a. if a = 0 then ''LJ'' else ''PO''),
              classroom_at = (\<lambda>a. if a = 0 then ''12'' else if a = 1 then ''14'' else ''47'')\<rparr>"

definition maths :: Subject where
  "maths = \<lparr>GlobalSubject = Some 0, Allocation = Arr5 2 0 0 0 0, Placement = ''any'',
            Teacher = Some 0, Classrooms = [Some 0, Some 1], Group = ''none''\<rparr>"

definition physics :: Subject where
  "physics = \<lparr>GlobalSubject = Some 1, Allocation = Arr5 1 0 0 0 0, Placement = ''any'',
              Teacher = Some 0, Classrooms = [Some 1], Group = ''none''\<rparr>"

definition history :: Subject where
  "history = \<lparr>GlobalSubject = Some 2, Allocation = Arr5 1 0 0 0 0, Placement = ''any'',
              Teacher = Some 1, Classrooms = [Some 2], Group = ''none''\<rparr>"

definition polish :: Subject where
  "polish = \<lparr>GlobalSubject = Some 3, Allocation = Arr5 2 1 0 0 0, Placement = ''any'',
             Teacher = Some 1, Classrooms = [Some 2], Group = ''none''\<rparr>"

definition instance_of :: "Subject list list \<Rightarrow> InputData" where
  "instance_of sjss =
     \<lparr>GlobalSubjects = [''matematyka'', ''fizyka'', ''historia'', ''j.polski''],
      Classrooms_all = [''12'', ''14'', ''47''], Teachers = [''LJ'', ''PO''],
      Divisions = map (\<lambda>sjs. \<lparr>Name = ''Division'', Weight = 1, Subjects = sjs\<rparr>) sjss\<rparr>"

text \<open>
  A source whose outcomes are the given numbers followed by zeros, and the Individual that
  the builder makes from these outcomes.
\<close>

definition draws :: "nat list \<Rightarrow> nat \<Rightarrow> nat" where
  "draws xs = (\<lambda>i. if i < length xs then xs ! i else 0)"

definition built :: "InputData \<Rightarrow> nat list \<Rightarrow> Individual" where
  "built inp xs = fst (randomIndividual inp \<lparr>tape = draws xs, pos = 0\<rparr>)"

definition small_run :: Solver where
  "small_run = \<lparr>PopulationSize = 2, Generations = 1, MutationRate = 1 / 2\<rparr>"

definition extra_lesson :: Lesson where
  "extra_lesson = \<lparr>out_GlobalSubject = Some 1, out_Teacher = Some 0, out_Classroom = None,
                   out_Group = None\<rparr>"

text \<open>
  Builder-made Individuals: one division with two hours of maths (classrooms 12 and 14); two
  divisions, maths and one hour of history; one division with 2 + 1 hours of Polish.
\<close>

definition solo :: Individual where
  "solo = built (instance_of [[maths]]) [0, 1]"

definition duo :: Individual where
  "duo = built (instance_of [[maths], [history]]) [0, 1]"

definition trio :: Individual where
  "trio = built (instance_of [[polish]]) []"

text \<open>
  An empty timetable against a requirement of \<open>2^64 - 1\<close> hours; a requirement without
  subject.
\<close>

definition no_hours :: Individual where
  "no_hours = \<lparr>Timetables = [Arr5 [] [] [] [] []]\<rparr>"

definition endless :: Subject where
  "endless = maths\<lparr>Allocation := Arr5 18446744073709551615 0 0 0 0\<rparr>"

definition nameless :: Subject where
  "nameless = maths\<lparr>GlobalSubject := None\<rparr>"

text \<open>
  A perfect Individual with day loads 4, 0, 0, 0, 0 in the first division and 5, 1, 1, 1, 1
  in the second, where teacher \<open>PO\<close> has the fifth period of Monday; a lesson of \<open>PO\<close>
  to be added there, and a lesson of \<open>LJ\<close> in classroom 12.
\<close>

definition maths4 :: Subject where
  "maths4 = maths\<lparr>Allocation := Arr5 4 0 0 0 0, Classrooms := [Some 0]\<rparr>"

definition history9 :: Subject where
  "history9 = history\<lparr>Allocation := Arr5 5 1 1 1 1\<rparr>"

definition week :: Individual where
  "week = built (instance_of [[maths4], [history9]]) []"

definition late_lesson :: Lesson where
  "late_lesson = \<lparr>out_GlobalSubject = Some 1, out_Teacher = Some 1, out_Classroom = None,
                  out_Group = None\<rparr>"

definition clash_lesson :: Lesson where
  "clash_lesson = \<lparr>out_GlobalSubject = Some 1, out_Teacher = Some 0, out_Classroom = Some 0,
                   out_Group = None\<rparr>"

text \<open>
  Outcomes of the random source. A run of \<open>Solve\<close> with two individuals on \<open>two_classes\<close>
  makes three draws for each individual (the classrooms), then two for the parents, three in
  \<open>crossover\<close> and up to five in \<open>mutate\<close>.
\<close>

definition two_classes :: InputData where
  "two_classes = instance_of [[maths], [physics]]"

definition clash_draws :: "int \<Rightarrow> nat \<Rightarrow> nat" where
  "clash_draws seed = draws [0, 1, 0, 1, 0, 0, 0, 0, 0, 0, 0, 0, 0, 0, 0, 1]"

definition breeding_draws :: "nat \<Rightarrow> nat" where
  "breeding_draws = draws [0, 1, 0, 1, 0, 0, 0, 1, 1, 0, 0, 0, 0, 1]"

definition first_population :: "IndividualRef list \<times> store \<times> rand_source" where
  "first_population =
     fill_population two_classes 2 ([], empty_store, \<lparr>tape = breeding_draws, pos = 0\<rparr>)"

definition monday_first :: Individual where
  "monday_first =
     \<lparr>Timetables = [Arr5 [new_period maths (Some 0), new_period maths (Some 1)] [] [] [] [],
                     Arr5 [new_period physics (Some 1)] [] [] [] []]\<rparr>"

definition monday_swapped :: Individual where
  "monday_swapped =
     \<lparr>Timetables = [Arr5 [new_period maths (Some 1), new_period maths (Some 0)] [] [] [] [],
                     Arr5 [new_period physics (Some 1)] [] [] [] []]\<rparr>"

definition one_class :: InputData where
  "one_class = instance_of [[maths]]"

text \<open>
  A generator whose source, seeded with \<open>n\<close>, yields \<open>n\<close> at every draw, and a source as a
  caller may have left it.
\<close>

definition clock_draws :: "int \<Rightarrow> nat \<Rightarrow> nat" where
  "clock_draws seed = (\<lambda>i. nat seed)"

definition idle :: rand_source where
  "idle = \<lparr>tape = (\<lambda>i. 0), pos = 0\<rparr>"

section \<open>Properties\<close>

subsection \<open>The chunk extractor\<close>

lemma extract_inner:
  "fold (\<lambda>alloc chunks. if 0 < alloc then chunks @ [\<lparr>subj = sj, size_chunk = alloc\<rparr>]
                         else chunks) as acc
   = acc @ map (\<lambda>a. \<lparr>subj = sj, size_chunk = a\<rparr>) (filter (\<lambda>a. a \<noteq> 0) as)"
  for as :: "uint list"
  by (induction as arbitrary: acc) (auto simp: word_greater_zero_iff)

lemma extract_outer:
  "fold (\<lambda>sj chunks.
           fold (\<lambda>alloc chunks. if 0 < alloc then chunks @ [\<lparr>subj = sj, size_chunk = alloc\<rparr>]
                                  else chunks)
                (list_of (Allocation sj)) chunks) sjs acc
   = acc @ concat (map (\<lambda>sj. map (\<lambda>a. \<lparr>subj = sj, size_chunk = a\<rparr>)
                                (filter (\<lambda>a. a \<noteq> 0) (list_of (Allocation sj)))) sjs)"
  by (induction sjs arbitrary: acc) (simp_all add: extract_inner)

lemma extractSubjectChunks_concat:
  "extractSubjectChunks dv =
     concat (map (\<lambda>sj. map (\<lambda>a. \<lparr>subj = sj, size_chunk = a\<rparr>)
                          (filter (\<lambda>a. a \<noteq> 0) (list_of (Allocation sj))))
                 (Subjects dv))"
  by (simp add: extractSubjectChunks_def extract_outer)

text \<open>
  C5. For every division, \<open>extractSubjectChunks\<close> returns one chunk for each non-zero
  entry of each subject's allocation vector, the chunk's size being that entry, subjects in
  the order of the division and entries in the order of the vector's indices. The function
  takes the division and nothing else (no random source, no store), so its result is a
  function of the division alone.
\<close>

theorem extractSubjectChunks_spec:
  "extractSubjectChunks dv =
     concat (map (\<lambda>sj. map (\<lambda>a. \<lparr>subj = sj, size_chunk = a\<rparr>)
                          (filter (\<lambda>a. a \<noteq> 0) (list_of (Allocation sj))))
                 (Subjects dv))"
  by (rule extractSubjectChunks_concat)

subsection \<open>The candidate builder: day loads\<close>

lemma list_of_upd5: "i < 5 \<Longrightarrow> list_of (upd5 tt i x) = (list_of tt)[i := x]"
  by (cases tt) (auto simp: numeral_eq_Suc less_Suc_eq)

lemma length_list_of [simp]: "length (list_of tt) = 5"
  by (cases tt) simp

lemma at5_upd5: "i < 5 \<Longrightarrow> j < 5 \<Longrightarrow> at5 (upd5 tt i x) j = (if j = i then x else at5 tt j)"
  by (simp add: at5_def list_of_upd5)

lemma day_counts_upd5: "i < 5 \<Longrightarrow> day_counts (upd5 tt i d) = (day_counts tt)[i := length d]"
  by (simp add: day_counts_def list_of_upd5 map_update)

lemma day_counts_nth: "i < 5 \<Longrightarrow> day_counts tt ! i = length (at5 tt i)"
  by (simp add: day_counts_def at5_def)

lemma place_hours_length:
  "length (fst (place_hours sj n (d, r))) = length d + n"
  by (induction n arbitrary: d r) (auto split: prod.splits)

lemma pick_least:
  "pickLeastLoadedDay tt < 5 \<and>
   length (at5 tt (pickLeastLoadedDay tt)) = Min (set (day_counts tt))"
  by (cases tt) (simp add: pickLeastLoadedDay_def at5_def day_counts_def upt_rec min_def)

lemma spread_update_least:
  fixes ls :: "nat list"
  assumes i: "i < length ls" and least: "ls ! i = Min (set ls)"
  shows "Max (set (ls[i := ls ! i + s])) - Min (set (ls[i := ls ! i + s]))
         \<le> max (Max (set ls) - Min (set ls)) s"
proof -
  let ?ls' = "ls[i := ls ! i + s]"
  have ne: "set ls \<noteq> {}" "set ?ls' \<noteq> {}" using i by auto
  have sub: "set ?ls' \<subseteq> insert (ls ! i + s) (set ls)"
    by (rule set_update_subset_insert)
  have up: "Max (set ?ls') \<le> max (Max (set ls)) (ls ! i + s)"
  proof -
    have "x \<le> max (Max (set ls)) (ls ! i + s)" if "x \<in> set ?ls'" for x
    proof -
      from that sub have "x = ls ! i + s \<or> x \<in> set ls" by auto
      then show ?thesis
      proof
        assume "x = ls ! i + s" then show ?thesis by simp
      next
        assume "x \<in> set ls"
        then have "x \<le> Max (set ls)" by simp
        then show ?thesis by simp
      qed
    qed
    then show ?thesis using ne by simp
  qed
  have lo: "Min (set ls) \<le> Min (set ?ls')"
  proof -
    have "Min (set ls) \<le> x" if "x \<in> set ?ls'" for x
    proof -
      from that sub have "x = ls ! i + s \<or> x \<in> set ls" by auto
      then show ?thesis using least by (auto intro: trans_le_add1)
    qed
    then show ?thesis using ne by simp
  qed
  have "Min (set ls) \<le> Max (set ls)"
    using i by (meson List.finite_set Max_ge Min_le nth_mem order_trans)
  with up lo show ?thesis unfolding least by arith
qed

lemma spread_upd:
  assumes "i < 5" "length (at5 tt i) = Min (set (day_counts tt))"
    and "length d = length (at5 tt i) + s"
  shows "spread (upd5 tt i d) \<le> max (spread tt) s"
proof -
  have "i < length (day_counts tt)" using assms(1) by (simp add: day_counts_def)
  moreover have "day_counts tt ! i = Min (set (day_counts tt))"
    using assms by (simp add: day_counts_nth)
  ultimately show ?thesis
    using spread_update_least [of i "day_counts tt" s] assms
    by (simp add: spread_def day_counts_upd5 day_counts_nth)
qed

lemma fold_min_max:
  fixes xs :: "int list"
  shows "fold (\<lambda>c (minC, maxC). (if c < minC then c else minC, if c > maxC then c else maxC))
           xs (a, b) = (Min (insert a (set xs)), Max (insert b (set xs)))"
proof (induction xs arbitrary: a b)
  case Nil
  show ?case by simp
next
  case (Cons x xs)
  have 1: "Min (insert a (insert x (set xs))) = Min (insert (min x a) (set xs))"
    by (cases "set xs = {}") (simp_all add: min.assoc min.left_commute min.commute)
  have 2: "Max (insert b (insert x (set xs))) = Max (insert (max x b) (set xs))"
    by (cases "set xs = {}") (simp_all add: max.assoc max.left_commute max.commute)
  show ?case
    by (simp only: fold_Cons comp_apply prod.case Cons.IH list.set 1 2) (simp add: min_def max_def)
qed

lemma min_max_counts:
  fixes ls :: "nat list"
  assumes "ls \<noteq> []"
  shows "Min (set (map int ls)) = int (Min (set ls))" "Max (set (map int ls)) = int (Max (set ls))"
  using assms by (simp_all add: mono_Min_commute [of int] mono_Max_commute [of int] mono_def)

lemma balance_penalty_spread:
  "balance_penalty tt sc = (if 4 < spread tt then sc + of_nat (spread tt * 5) else sc)"
proof -
  obtain x xs where ls: "day_counts tt = x # xs"
    by (cases tt) (simp add: day_counts_def)
  have cnt: "map (\<lambda>d. int (length d)) (list_of tt) = map int (day_counts tt)"
    by (simp add: day_counts_def)
  have ins: "insert (int x) (int ` set xs) = set (map int (day_counts tt))"
    by (simp add: ls)
  have "x \<in> set (day_counts tt)" by (simp add: ls)
  then have le: "Min (set (day_counts tt)) \<le> Max (set (day_counts tt))"
    by (meson List.finite_set Max_ge Min_le order_trans)
  have mm: "fold (\<lambda>c (minC, maxC). (if c < minC then c else minC, if c > maxC then c else maxC))
              (tl (map int (day_counts tt))) (hd (map int (day_counts tt)), hd (map int (day_counts tt)))
            = (int (Min (set (day_counts tt))), int (Max (set (day_counts tt))))"
    unfolding fold_min_max using min_max_counts [of "day_counts tt"]
    by (simp add: ls)
  have d: "int (Max (set (day_counts tt))) - int (Min (set (day_counts tt))) = int (spread tt)"
    using le by (simp add: spread_def)
  show ?thesis
    unfolding balance_penalty_def cnt Let_def mm prod.case d
    by simp
qed

lemma without_room_new_period [simp]: "without_room (new_period sj c) = new_period sj None"
  by (simp add: new_period_def)

lemma place_hours_appends:
  "\<exists>ds. fst (place_hours sj n (d, r)) = d @ ds \<and>
        map without_room ds = replicate n (new_period sj None)"
proof (induction n arbitrary: d r)
  case 0
  show ?case by simp
next
  case (Suc n)
  obtain c r' where pc: "pickClassroom sj r = (c, r')" by (cases "pickClassroom sj r")
  from Suc.IH [of "d @ [new_period sj c]" r'] obtain ds
    where ds: "fst (place_hours sj n (d @ [new_period sj c], r')) = (d @ [new_period sj c]) @ ds"
      "map without_room ds = replicate n (new_period sj None)" by blast
  have "fst (place_hours sj (Suc n) (d, r)) = d @ (new_period sj c # ds)"
    using ds(1) by (simp add: pc)
  moreover have "map without_room (new_period sj c # ds) = replicate (Suc n) (new_period sj None)"
    using ds(2) by simp
  ultimately show ?case by blast
qed

lemma mset_periods_upd5:
  "i < 5 \<Longrightarrow> mset (periods (upd5 tt i (at5 tt i @ ds))) = mset (periods tt) + mset ds"
  by (cases tt) (auto simp: periods_def at5_def numeral_eq_Suc less_Suc_eq)

lemma place_chunk_fst:
  "fst (place_chunk c (tt, r)) =
     upd5 tt (pickLeastLoadedDay tt)
       (fst (place_hours (subj c) (unat (size_chunk c)) (at5 tt (pickLeastLoadedDay tt), r)))"
  by (simp add: place_chunk_def Let_def split: prod.splits)

lemma place_chunk_spread:
  "spread (fst (place_chunk c (tt, r))) \<le> max (spread tt) (unat (size_chunk c))"
  unfolding place_chunk_fst
  using pick_least [of tt] by (intro spread_upd) (simp_all add: place_hours_length)

lemma place_chunk_periods:
  "image_mset without_room (mset (periods (fst (place_chunk c (tt, r)))))
   = image_mset without_room (mset (periods tt))
     + mset (replicate (unat (size_chunk c)) (new_period (subj c) None))"
proof -
  let ?i = "pickLeastLoadedDay tt"
  obtain ds where ds: "fst (place_hours (subj c) (unat (size_chunk c)) (at5 tt ?i, r)) = at5 tt ?i @ ds"
    "map without_room ds = replicate (unat (size_chunk c)) (new_period (subj c) None)"
    using place_hours_appends by blast
  have "image_mset without_room (mset ds) = mset (map without_room ds)" by simp
  then show ?thesis
    unfolding place_chunk_fst ds(1) using pick_least [of tt]
    by (simp add: mset_periods_upd5 ds(2) del: mset_map)
qed

lemma fold_place_chunk_spread:
  "spread (fst (fold place_chunk cs (tt, r)))
   \<le> fold max (map (\<lambda>c. unat (size_chunk c)) cs) (spread tt)"
proof (induction cs arbitrary: tt r)
  case Nil
  show ?case by simp
next
  case (Cons c cs)
  obtain tt' r' where pc: "place_chunk c (tt, r) = (tt', r')" by (cases "place_chunk c (tt, r)")
  have mono: "fold max xs a \<le> fold max xs b" if "a \<le> b" for xs and a b :: nat
    using that by (induction xs arbitrary: a b) (auto simp: max_def)
  have "spread tt' \<le> max (unat (size_chunk c)) (spread tt)"
    using place_chunk_spread [of c tt r] by (simp add: pc max.commute)
  then show ?case
    using Cons.IH [of tt' r'] mono by (simp add: pc) (meson order_trans)
qed

lemma fold_place_chunk_periods:
  "image_mset without_room (mset (periods (fst (fold place_chunk cs (tt, r)))))
   = image_mset without_room (mset (periods tt))
     + mset (concat (map (\<lambda>c. replicate (unat (size_chunk c)) (new_period (subj c) None)) cs))"
proof (induction cs arbitrary: tt r)
  case Nil
  show ?case by simp
next
  case (Cons c cs)
  obtain tt' r' where pc: "place_chunk c (tt, r) = (tt', r')" by (cases "place_chunk c (tt, r)")
  show ?case
    using Cons.IH [of tt' r'] place_chunk_periods [of c tt r]
    by (simp add: pc del: mset_map)
qed

lemma spread_empty: "spread (Arr5 [] [] [] [] []) = 0"
  by (simp add: spread_def day_counts_def)

lemma build_days_spread:
  "spread (fst (build_days dv r)) \<le> largest_chunk (extractSubjectChunks dv)"
  using fold_place_chunk_spread [of "extractSubjectChunks dv" "Arr5 [] [] [] [] []" r]
  by (simp add: build_days_def largest_chunk_def spread_empty)

lemma build_days_periods:
  "image_mset without_room (mset (periods (fst (build_days dv r))))
   = mset (concat (map (\<lambda>c. replicate (unat (size_chunk c)) (new_period (subj c) None))
                       (extractSubjectChunks dv)))"
  using fold_place_chunk_periods [of "extractSubjectChunks dv" "Arr5 [] [] [] [] []" r]
  by (simp add: build_days_def periods_def del: mset_map)

lemma build_fold:
  assumes "fold (\<lambda>dv (timetables, r).
                    let (divisionDays, r') = build_days dv r
                    in (timetables @ [divisionDays], r')) dvs (acc, r) = (tts, r1)"
  shows "\<exists>new. tts = acc @ new \<and> length new = length dvs \<and>
           (\<forall>i<length dvs. \<exists>ri. new ! i = fst (build_days (dvs ! i) ri))"
  using assms
proof (induction dvs arbitrary: acc r)
  case Nil
  then show ?case by simp
next
  case (Cons dv dvs)
  obtain days r' where bd: "build_days dv r = (days, r')" by (cases "build_days dv r")
  from Cons.prems have f: "fold (\<lambda>dv (timetables, r).
                    let (divisionDays, r') = build_days dv r
                    in (timetables @ [divisionDays], r')) dvs (acc @ [days], r') = (tts, r1)"
    by (simp add: bd)
  from Cons.IH [OF f] obtain new where new: "tts = (acc @ [days]) @ new"
    "length new = length dvs" "\<forall>i<length dvs. \<exists>ri. new ! i = fst (build_days (dvs ! i) ri)"
    by blast
  have "\<exists>ri. (days # new) ! i = fst (build_days ((dv # dvs) ! i) ri)"
    if "i < length (dv # dvs)" for i
  proof (cases i)
    case 0
    have "days = fst (build_days dv r)" by (simp add: bd)
    then show ?thesis using 0 by auto
  next
    case (Suc j)
    with that new(3) show ?thesis by auto
  qed
  moreover have "tts = acc @ (days # new)" using new(1) by simp
  moreover have "length (days # new) = length (dv # dvs)" using new(2) by simp
  ultimately show ?case by blast
qed

lemma randomIndividual_timetables:
  "length (Timetables (fst (randomIndividual inp r))) = length (Divisions inp) \<and>
   (\<forall>d<length (Divisions inp).
      \<exists>ri. Timetables (fst (randomIndividual inp r)) ! d = fst (build_days (Divisions inp ! d) ri))"
proof -
  obtain tts r1 where f: "fold (\<lambda>dv (timetables, r).
                    let (divisionDays, r') = build_days dv r
                    in (timetables @ [divisionDays], r')) (Divisions inp) ([], r) = (tts, r1)"
    by (cases "fold (\<lambda>dv (timetables, r).
                    let (divisionDays, r') = build_days dv r
                    in (timetables @ [divisionDays], r')) (Divisions inp) ([], r)")
  have ri: "Timetables (fst (randomIndividual inp r)) = tts"
    unfolding randomIndividual_def f by simp
  from build_fold [OF f] show ?thesis unfolding ri by auto
qed

text \<open>
  C10. In every division of an Individual built by \<open>randomIndividual\<close> the largest day load
  exceeds the smallest by at most the size of the division's largest chunk (0 for a division
  without chunks); when no chunk is larger than 4 the balance loop of \<open>fitness\<close> adds nothing
  for that division.
\<close>

theorem randomIndividual_balanced:
  assumes "d < length (Divisions inp)"
  shows "spread (Timetables (fst (randomIndividual inp r)) ! d)
           \<le> largest_chunk (extractSubjectChunks (Divisions inp ! d)) \<and>
         (largest_chunk (extractSubjectChunks (Divisions inp ! d)) \<le> 4 \<longrightarrow>
            balance_penalty (Timetables (fst (randomIndividual inp r)) ! d) sc = sc)"
proof -
  from randomIndividual_timetables [of inp r] assms obtain ri
    where tt: "Timetables (fst (randomIndividual inp r)) ! d = fst (build_days (Divisions inp ! d) ri)"
    by blast
  show ?thesis
    unfolding tt balance_penalty_spread
    using build_days_spread [of "Divisions inp ! d" ri] by auto
qed

subsection \<open>The score as a sum of penalties\<close>

lemma hits_card: "finite U \<Longrightarrow> hits U xs + card (U \<union> set xs) = length xs + card U"
proof (induction xs arbitrary: U)
  case Nil
  show ?case by simp
next
  case (Cons x xs)
  from Cons.IH [of "insert x U"] Cons.prems
  have "hits (insert x U) xs + card (insert x U \<union> set xs) = length xs + card (insert x U)"
    by simp
  moreover have "insert x U \<union> set xs = U \<union> set (x # xs)" by auto
  ultimately show ?case using Cons.prems by (auto simp: card_insert_if insert_absorb)
qed

lemma hits_repeats: "hits {} xs = repeats xs"
  using hits_card [of "{}" xs] by (simp add: repeats_def length_remdups_card_conv)

lemma mark_teacher_effect:
  "seen_c (mark_teacher mem k l st) = seen_c st"
  "out_Teacher l = None \<Longrightarrow> mark_teacher mem k l st = st"
  "out_Teacher l = Some p \<Longrightarrow>
     seen_t (mark_teacher mem k l st) = insert (k, teacher_at mem p) (seen_t st) \<and>
     score (mark_teacher mem k l st)
       = score st + (if (k, teacher_at mem p) \<in> seen_t st then 1000 else 0)"
  by (auto simp: mark_teacher_def seen_t_def seen_c_def Let_def split: option.splits if_splits)

lemma mark_classroom_effect:
  "seen_t (mark_classroom mem k l st) = seen_t st"
  "out_Classroom l = None \<Longrightarrow> mark_classroom mem k l st = st"
  "out_Classroom l = Some p \<Longrightarrow>
     seen_c (mark_classroom mem k l st) = insert (k, classroom_at mem p) (seen_c st) \<and>
     score (mark_classroom mem k l st)
       = score st + (if (k, classroom_at mem p) \<in> seen_c st then 1000 else 0)"
  by (auto simp: mark_classroom_def seen_t_def seen_c_def Let_def split: option.splits if_splits)

lemma check_lesson_effect:
  "seen_t (check_lesson mem k l st) = seen_t st \<union> set_option (teacher_event mem (k, l))"
  "seen_c (check_lesson mem k l st) = seen_c st \<union> set_option (classroom_event mem (k, l))"
  "score (check_lesson mem k l st)
     = score st + of_nat (1000 * (hit (seen_t st) (teacher_event mem (k, l))
                                 + hit (seen_c st) (classroom_event mem (k, l))))"
proof -
  show "seen_t (check_lesson mem k l st) = seen_t st \<union> set_option (teacher_event mem (k, l))"
    by (cases "out_Teacher l")
       (simp_all add: check_lesson_def teacher_event_def placed_def mark_teacher_effect
          mark_classroom_effect)
  show "seen_c (check_lesson mem k l st) = seen_c st \<union> set_option (classroom_event mem (k, l))"
    by (cases "out_Classroom l")
       (simp_all add: check_lesson_def classroom_event_def placed_def mark_teacher_effect
          mark_classroom_effect)
  show "score (check_lesson mem k l st)
     = score st + of_nat (1000 * (hit (seen_t st) (teacher_event mem (k, l))
                                 + hit (seen_c st) (classroom_event mem (k, l))))"
    by (cases "out_Teacher l"; cases "out_Classroom l")
       (simp_all add: check_lesson_def teacher_event_def classroom_event_def placed_def hit_def
          mark_teacher_effect mark_classroom_effect)
qed

lemma overlaps_fold:
  "seen_t (fold (\<lambda>(k, l). check_lesson mem k l) es st)
     = seen_t st \<union> set (List.map_filter (teacher_event mem) es) \<and>
   seen_c (fold (\<lambda>(k, l). check_lesson mem k l) es st)
     = seen_c st \<union> set (List.map_filter (classroom_event mem) es) \<and>
   score (fold (\<lambda>(k, l). check_lesson mem k l) es st)
     = score st + of_nat (1000 * (hits (seen_t st) (List.map_filter (teacher_event mem) es)
                                 + hits (seen_c st) (List.map_filter (classroom_event mem) es)))"
proof (induction es arbitrary: st)
  case Nil
  show ?case by (simp add: map_filter_simps)
next
  case (Cons e es)
  obtain k l where e: "e = (k, l)" by (cases e)
  let ?st = "check_lesson mem k l st"
  note IH = Cons.IH [of ?st]
  have t: "hits (seen_t st) (List.map_filter (teacher_event mem) (e # es))
           = hit (seen_t st) (teacher_event mem (k, l))
             + hits (seen_t ?st) (List.map_filter (teacher_event mem) es)"
    by (cases "teacher_event mem (k, l)")
       (simp_all add: e map_filter_simps hit_def check_lesson_effect)
  have c: "hits (seen_c st) (List.map_filter (classroom_event mem) (e # es))
           = hit (seen_c st) (classroom_event mem (k, l))
             + hits (seen_c ?st) (List.map_filter (classroom_event mem) es)"
    by (cases "classroom_event mem (k, l)")
       (simp_all add: e map_filter_simps hit_def check_lesson_effect)
  have st: "seen_t ?st \<union> set (List.map_filter (teacher_event mem) es)
            = seen_t st \<union> set (List.map_filter (teacher_event mem) (e # es))"
    by (cases "teacher_event mem (k, l)") (simp_all add: e map_filter_simps check_lesson_effect)
  have sc: "seen_c ?st \<union> set (List.map_filter (classroom_event mem) es)
            = seen_c st \<union> set (List.map_filter (classroom_event mem) (e # es))"
    by (cases "classroom_event mem (k, l)") (simp_all add: e map_filter_simps check_lesson_effect)
  have f: "fold (\<lambda>(k, l). check_lesson mem k l) (e # es) st
           = fold (\<lambda>(k, l). check_lesson mem k l) es ?st"
    by (simp add: e)
  show ?case
    unfolding f t c st [symmetric] sc [symmetric]
    using IH by (simp add: check_lesson_effect(3) algebra_simps)
qed

lemma fold_concat_map:
  "fold f (concat (map g xs)) = fold (\<lambda>x. fold f (g x)) xs"
  by (induction xs) (simp_all add: fun_eq_iff)

lemma fold_slots_of:
  "fold (\<lambda>(k, l). f k l) (slots_of tt)
   = fold (\<lambda>day. fold (\<lambda>(slot, sg). fold (f (day, slot)) (sg_list sg))
                        (enumerate 0 (at5 tt day))) [0..<5]"
  by (simp add: slots_of_def fold_concat_map split_def fold_map comp_def)

lemma check_days_slots:
  "check_days mem tt = fold (\<lambda>(k, l). check_lesson mem k l) (slots_of tt)"
  unfolding fold_slots_of by (simp add: check_days_def fun_eq_iff)

lemma check_overlaps_slots:
  "fold (check_days mem) tts st = fold (\<lambda>(k, l). check_lesson mem k l) (concat (map slots_of tts)) st"
  unfolding fold_concat_map check_days_slots ..

lemma seen_empty:
  "seen_t \<lparr>score = 0, teacherUsed = Map.empty, classroomUsed = Map.empty\<rparr> = {}"
  "seen_c \<lparr>score = 0, teacherUsed = Map.empty, classroomUsed = Map.empty\<rparr> = {}"
  by (simp_all add: seen_t_def seen_c_def)

lemma check_overlaps_score:
  "score (check_overlaps mem ind)
   = of_nat (1000 * (repeats (teacher_slots mem ind) + repeats (classroom_slots mem ind)))"
  unfolding check_overlaps_def check_overlaps_slots
  using overlaps_fold [of mem "all_slots ind"
     "\<lparr>score = 0, teacherUsed = Map.empty, classroomUsed = Map.empty\<rparr>"]
  by (simp add: seen_empty hits_repeats teacher_slots_def classroom_slots_def all_slots_def)

lemma fold_enumerate_snd:
  "fold (\<lambda>(i, x). g x) (enumerate n xs) = fold g xs"
  by (induction xs arbitrary: n) simp_all

lemma count_days_slots:
  "count_days tt = fold (\<lambda>(k, l). count_hour l) (slots_of tt)"
  unfolding fold_slots_of fold_enumerate_snd by (simp add: count_days_def fun_eq_iff)

lemma less_hours_0 [simp]: "less_hours 0 c = c"
  by (simp add: less_hours_def)

lemma decrement_less_hours:
  "(if 0 < size_chunk c then c\<lparr>size_chunk := size_chunk c - 1\<rparr> else c) = less_hours 1 c"
proof (cases "size_chunk c = 0")
  case True
  then have "c\<lparr>size_chunk := 0\<rparr> = c" by (cases c) simp
  with True show ?thesis by (simp add: less_hours_def)
next
  case False
  have "size_chunk c - 1 = of_nat (unat (size_chunk c - 1))" by simp
  also have "unat (size_chunk c - 1) = unat (size_chunk c) - 1"
    using False by (rule unat_minus_one)
  finally show ?thesis using False by (simp add: word_greater_zero_iff less_hours_def)
qed

lemma count_hour_less:
  "count_hour l remaining
   = map (\<lambda>c. less_hours (if matches c l then 1 else 0) c) remaining"
  unfolding count_hour_def decrement_less_hours
  by (simp add: matches_def placed_def)

lemma less_hours_twice: "less_hours m (less_hours n c) = less_hours (n + m) c"
proof -
  have "unat (of_nat (unat (size_chunk c) - n) :: uint) = unat (size_chunk c) - n"
    by (rule le_unat_uoi [of _ "size_chunk c"]) simp
  then show ?thesis by (simp add: less_hours_def)
qed

lemma matches_less_hours: "matches (less_hours n c) l = matches c l"
  by (simp add: matches_def less_hours_def)

lemma fold_count_hour:
  "fold (\<lambda>(k, l). count_hour l) es remaining
   = map (\<lambda>c. less_hours (length (filter (\<lambda>(k, l). matches c l) es)) c) remaining"
proof (induction es arbitrary: remaining)
  case Nil
  show ?case by (simp add: map_idI)
next
  case (Cons e es)
  obtain k l where e: "e = (k, l)" by (cases e)
  have step: "less_hours (length (filter (\<lambda>(k, l). matches (less_hours n c) l) es))
            (less_hours (if matches c l then 1 else 0) c)
          = less_hours (length (filter (\<lambda>(k, l). matches c l) (e # es))) c" for c n
    by (simp add: less_hours_twice matches_less_hours e)
  have "fold (\<lambda>(k, l). count_hour l) (e # es) remaining
        = fold (\<lambda>(k, l). count_hour l) es (count_hour l remaining)"
    by (simp add: e)
  also have "\<dots> = map (\<lambda>c. less_hours (length (filter (\<lambda>(k, l). matches c l) es)) c)
                    (map (\<lambda>c. less_hours (if matches c l then 1 else 0) c) remaining)"
    unfolding Cons.IH count_hour_less ..
  also have "\<dots> = map (\<lambda>c. less_hours (length (filter (\<lambda>(k, l). matches c l) (e # es))) c) remaining"
    unfolding map_map comp_def step ..
  finally show ?case .
qed

lemma unmet_penalty_sum:
  "unmet_penalty remaining sc = sc + of_nat (500 * sum_list (map (\<lambda>c. unat (size_chunk c)) remaining))"
  unfolding unmet_penalty_def
proof (induction remaining arbitrary: sc)
  case Nil
  show ?case by simp
next
  case (Cons c cs)
  have "(if 0 < size_chunk c then sc + size_chunk c * 500 else sc)
        = sc + of_nat (500 * unat (size_chunk c))"
    by (cases "size_chunk c = 0") (simp_all add: word_greater_zero_iff)
  then show ?case by (simp add: Cons.IH algebra_simps)
qed

lemma unmet_after_count:
  "unmet_penalty (count_days tt (extractSubjectChunks dv)) sc
   = sc + of_nat (500 * unmet_hours dv tt)"
proof -
  have "unat (size_chunk (less_hours n c)) = unat (size_chunk c) - n" for n c
    unfolding less_hours_def
    by simp (rule le_unat_uoi [of _ "size_chunk c"], simp)
  then show ?thesis
    by (simp add: unmet_penalty_sum count_days_slots fold_count_hour unmet_hours_def
        shortfall_def [abs_def] hours_placed_def comp_def)
qed

lemma check_allocations_sum:
  "dIdx + length dvs \<le> length (Timetables ind) \<Longrightarrow>
   check_allocations ind dvs dIdx sc
   = Inr (sc + of_nat (500 * sum_list (map (\<lambda>(dv, tt). unmet_hours dv tt)
                                          (zip dvs (drop dIdx (Timetables ind))))))"
proof (induction dvs arbitrary: dIdx sc)
  case Nil
  show ?case by simp
next
  case (Cons dv dvs)
  from Cons.prems have lt: "dIdx < length (Timetables ind)" by simp
  then have d: "drop dIdx (Timetables ind) = Timetables ind ! dIdx # drop (Suc dIdx) (Timetables ind)"
    by (simp add: Cons_nth_drop_Suc)
  from Cons.prems have "Suc dIdx + length dvs \<le> length (Timetables ind)" by simp
  from Cons.IH [OF this] lt show ?case
    by (simp add: d unmet_after_count algebra_simps)
qed

lemma fold_balance_penalty:
  "fold balance_penalty tts sc = sc + of_nat (5 * sum_list (map imbalance tts))"
  by (induction tts arbitrary: sc) (simp_all add: balance_penalty_spread imbalance_def algebra_simps)

lemma fitness_total:
  assumes "length (Divisions inp) \<le> length (Timetables ind)"
  shows "fitness mem ind inp = Inr (of_nat (penalty_total mem ind inp))"
  using assms
  by (simp add: fitness_def check_allocations_sum check_overlaps_score fold_balance_penalty
      penalty_total_def algebra_simps)

lemma fitness_panics:
  "length (Timetables ind) < length (Divisions inp) \<Longrightarrow> fitness mem ind inp = Inl IndexOutOfRange"
proof -
  have "length (Timetables ind) < dIdx + length dvs \<Longrightarrow> dIdx \<le> length (Timetables ind) \<Longrightarrow> 
        check_allocations ind dvs dIdx sc = Inl IndexOutOfRange" for dvs dIdx sc
    by (induction dvs arbitrary: dIdx sc) auto
  then show "length (Timetables ind) < length (Divisions inp) \<Longrightarrow> fitness mem ind inp = Inl IndexOutOfRange"
    by (simp add: fitness_def)
qed

lemma slots_of_days:
  "slots_of (Arr5 a b c d e)
   = day_slots 0 0 a @ day_slots 1 0 b @ day_slots 2 0 c @ day_slots 3 0 d @ day_slots 4 0 e"
  by (simp add: slots_of_def day_slots_def at5_def upt_rec numeral_eq_Suc)

subsection \<open>What the builder places\<close>

lemma day_slots_matching:
  "length (filter (\<lambda>(k, l). matches c l) (day_slots day n dl)) = sum_list (map (lessons_in c) dl)"
proof (induction dl arbitrary: n)
  case Nil
  show ?case by (simp add: day_slots_def)
next
  case (Cons sg dl)
  have "length (filter (\<lambda>(k, l). matches c l) (map (Pair (day, n)) (sg_list sg))) = lessons_in c sg"
    by (simp add: lessons_in_def filter_map comp_def)
  with Cons.IH [of "Suc n"] show ?case by (simp add: day_slots_def)
qed

lemma hours_placed_periods:
  "hours_placed tt c = sum_list (map (lessons_in c) (periods tt))"
  by (cases tt) (simp add: hours_placed_def slots_of_days day_slots_matching periods_def)

lemma lessons_in_without_room: "lessons_in c (without_room sg) = lessons_in c sg"
  by (cases sg) (simp add: lessons_in_def matches_def placed_def)

lemma lessons_in_new_period:
  "lessons_in c (new_period sj None)
   = (if GlobalSubject sj \<noteq> None \<and> same_requirement (subj c) sj then 1 else 0)"
  by (auto simp: lessons_in_def new_period_def matches_def placed_def no_lesson_def
      same_requirement_def)

lemma sum_lessons_in_chunks:
  "sum_list (map (lessons_in c)
      (concat (map (\<lambda>c'. replicate (unat (size_chunk c')) (new_period (subj c') None)) cs)))
   = sum_list (map (\<lambda>c'. unat (size_chunk c'))
       (filter (\<lambda>c'. GlobalSubject (subj c') \<noteq> None \<and> same_requirement (subj c) (subj c')) cs))"
  by (induction cs) (simp_all add: sum_list_replicate lessons_in_new_period)

lemma build_days_hours:
  "hours_placed (fst (build_days dv r)) c
   = sum_list (map (\<lambda>c'. unat (size_chunk c'))
       (filter (\<lambda>c'. GlobalSubject (subj c') \<noteq> None \<and> same_requirement (subj c) (subj c'))
               (extractSubjectChunks dv)))"
proof -
  let ?ps = "periods (fst (build_days dv r))"
  have "sum_list (map (lessons_in c) ?ps) = sum_mset (image_mset (lessons_in c) (mset ?ps))"
    by (simp flip: sum_mset_sum_list)
  also have "\<dots> = sum_mset (image_mset (lessons_in c) (image_mset without_room (mset ?ps)))"
    by (simp add: image_mset.compositionality comp_def lessons_in_without_room del: mset_map)
  also have "\<dots> = sum_list (map (lessons_in c)
      (concat (map (\<lambda>c'. replicate (unat (size_chunk c')) (new_period (subj c') None))
                   (extractSubjectChunks dv))))"
    unfolding build_days_periods by (simp flip: sum_mset_sum_list)
  finally show ?thesis by (simp add: hours_placed_periods sum_lessons_in_chunks)
qed

lemma chunk_hours_of_subjects:
  "sum_list (map (\<lambda>c'. unat (size_chunk c')) (filter (\<lambda>c'. P (subj c')) (extractSubjectChunks dv)))
   = sum_list (map hours_required (filter P (Subjects dv)))"
proof -
  have inner: "sum_list (map (\<lambda>c'. unat (size_chunk c'))
          (filter (\<lambda>c'. P (subj c')) (map (\<lambda>a. \<lparr>subj = sj, size_chunk = a\<rparr>) (filter (\<lambda>a. a \<noteq> 0) as))))
        = (if P sj then sum_list (map unat as) else 0)" for sj and as :: "uint list"
    by (induction as) (auto simp: unat_eq_0)
  have "sum_list (map (\<lambda>c'. unat (size_chunk c'))
          (filter (\<lambda>c'. P (subj c'))
             (concat (map (\<lambda>sj. map (\<lambda>a. \<lparr>subj = sj, size_chunk = a\<rparr>)
                                  (filter (\<lambda>a. a \<noteq> 0) (list_of (Allocation sj)))) sjs))))
        = sum_list (map hours_required (filter P sjs))" for sjs
    by (induction sjs) (simp_all add: inner hours_required_def)
  then show ?thesis by (simp add: extractSubjectChunks_concat)
qed

text \<open>
  C6. In every division of an Individual built by \<open>randomIndividual\<close> the periods are,
  classroom aside, exactly \<open>size\<close> single-lesson periods for each chunk of the division.
  For a requirement that names a \<open>GlobalSubject\<close>, the number of placed lessons with its
  subject and teacher pointers (the lessons the evaluator counts for it) is the sum of the
  sizes of the division's chunks with these pointers, which is the sum of the allocation
  entries of the division's subjects with these pointers: the chunk's own size when it is the
  only such chunk. A requirement whose \<open>GlobalSubject\<close> is nil has no placed lesson: the
  lessons copied from it have no subject.
\<close>

theorem randomIndividual_places_chunks:
  assumes "d < length (Divisions inp)"
  shows "length (Timetables (fst (randomIndividual inp r))) = length (Divisions inp) \<and>
    image_mset without_room (mset (periods (Timetables (fst (randomIndividual inp r)) ! d)))
      = mset (concat (map (\<lambda>c. replicate (unat (size_chunk c)) (new_period (subj c) None))
                           (extractSubjectChunks (Divisions inp ! d)))) \<and>
    (\<forall>c. GlobalSubject (subj c) \<noteq> None \<longrightarrow>
        hours_placed (Timetables (fst (randomIndividual inp r)) ! d) c
          = sum_list (map (\<lambda>c'. unat (size_chunk c'))
              (filter (\<lambda>c'. same_requirement (subj c) (subj c'))
                      (extractSubjectChunks (Divisions inp ! d)))) \<and>
        hours_placed (Timetables (fst (randomIndividual inp r)) ! d) c
          = sum_list (map hours_required
              (filter (same_requirement (subj c)) (Subjects (Divisions inp ! d))))) \<and>
    (\<forall>c. GlobalSubject (subj c) \<noteq> None \<and>
         filter (\<lambda>c'. same_requirement (subj c) (subj c'))
                (extractSubjectChunks (Divisions inp ! d)) = [c] \<longrightarrow>
        hours_placed (Timetables (fst (randomIndividual inp r)) ! d) c = unat (size_chunk c)) \<and>
    (\<forall>c. GlobalSubject (subj c) = None \<longrightarrow>
        hours_placed (Timetables (fst (randomIndividual inp r)) ! d) c = 0)"
proof -
  from randomIndividual_timetables [of inp r] assms obtain ri
    where len: "length (Timetables (fst (randomIndividual inp r))) = length (Divisions inp)"
      and tt: "Timetables (fst (randomIndividual inp r)) ! d = fst (build_days (Divisions inp ! d) ri)"
    by blast
  let ?dv = "Divisions inp ! d"
  have same: "(\<lambda>c'. GlobalSubject (subj c') \<noteq> None \<and> same_requirement (subj c) (subj c'))
              = (\<lambda>c'. same_requirement (subj c) (subj c'))"
    if "GlobalSubject (subj c) \<noteq> None" for c
    using that by (auto simp: same_requirement_def fun_eq_iff)
  have none: "(\<lambda>c'. GlobalSubject (subj c') \<noteq> None \<and> same_requirement (subj c) (subj c'))
              = (\<lambda>c'. False)"
    if "GlobalSubject (subj c) = None" for c
    using that by (auto simp: same_requirement_def fun_eq_iff)
  have 1: "hours_placed (fst (build_days ?dv ri)) c
           = sum_list (map (\<lambda>c'. unat (size_chunk c'))
               (filter (\<lambda>c'. same_requirement (subj c) (subj c')) (extractSubjectChunks ?dv)))"
    if "GlobalSubject (subj c) \<noteq> None" for c
    unfolding build_days_hours same [OF that] ..
  have 2: "hours_placed (fst (build_days ?dv ri)) c = 0" if "GlobalSubject (subj c) = None" for c
    unfolding build_days_hours none [OF that] by simp
  have 3: "hours_placed (fst (build_days ?dv ri)) c = unat (size_chunk c)"
    if "GlobalSubject (subj c) \<noteq> None"
      "filter (\<lambda>c'. same_requirement (subj c) (subj c')) (extractSubjectChunks ?dv) = [c]" for c
    using 1 [OF that(1)] that(2) by simp
  show ?thesis
    unfolding tt using len 1 2 3
    by (simp add: build_days_periods chunk_hours_of_subjects [of "same_requirement (subj _)"])
qed

subsection \<open>Replacing one lesson\<close>

lemma mset_sg_upd:
  "k < 3 \<Longrightarrow>
   mset (map (Pair key) (sg_list (sg_upd sg k l))) + {#(key, sg_list sg ! k)#}
   = mset (map (Pair key) (sg_list sg)) + {#(key, l)#}"
  by (cases sg) (auto simp: numeral_eq_Suc less_Suc_eq)

lemma mset_day_slots_upd:
  "slot < length dl \<Longrightarrow> k < 3 \<Longrightarrow>
   mset (day_slots day n (dl[slot := sg_upd (dl ! slot) k l]))
     + {#((day, n + slot), sg_list (dl ! slot) ! k)#}
   = mset (day_slots day n dl) + {#((day, n + slot), l)#}"
proof (induction dl arbitrary: slot n)
  case Nil
  then show ?case by simp
next
  case (Cons sg dl)
  show ?case
  proof (cases slot)
    case 0
    with Cons.prems mset_sg_upd [of k "(day, n)" sg l] show ?thesis
      by (simp add: day_slots_def)
  next
    case (Suc j)
    with Cons.prems Cons.IH [of j "Suc n"] show ?thesis
      by (simp add: day_slots_def)
  qed
qed

lemma mset_slots_set_lesson:
  assumes "day < 5" "slot < length (at5 tt day)" "k < 3"
  shows "mset (slots_of (days_set_lesson tt day slot k l))
           + {#((day, slot), sg_list (at5 tt day ! slot) ! k)#}
         = mset (slots_of tt) + {#((day, slot), l)#}"
proof (cases tt)
  case (Arr5 a b c d e)
  from assms(1) consider "day = 0" | "day = 1" | "day = 2" | "day = 3" | "day = 4" by linarith
  then show ?thesis
  proof cases
    case 1
    with assms mset_day_slots_upd [of slot a k 0 0 l] show ?thesis
      by (simp add: Arr5 days_set_lesson_def at5_def slots_of_days)
  next
    case 2
    with assms mset_day_slots_upd [of slot b k 1 0 l] show ?thesis
      by (simp add: Arr5 days_set_lesson_def at5_def slots_of_days)
  next
    case 3
    with assms mset_day_slots_upd [of slot c k 2 0 l] show ?thesis
      by (simp add: Arr5 days_set_lesson_def at5_def slots_of_days)
  next
    case 4
    with assms mset_day_slots_upd [of slot d k 3 0 l] show ?thesis
      by (simp add: Arr5 days_set_lesson_def at5_def slots_of_days)
  next
    case 5
    with assms mset_day_slots_upd [of slot e k 4 0 l] show ?thesis
      by (simp add: Arr5 days_set_lesson_def at5_def slots_of_days)
  qed
qed

lemma day_counts_set_lesson:
  "day < 5 \<Longrightarrow> day_counts (days_set_lesson tt day slot k l) = day_counts tt"
proof -
  assume day: "day < 5"
  have "(map length (list_of tt))[day := length (list_of tt ! day)] = map length (list_of tt)"
    using day by (intro nth_equalityI) (simp_all add: nth_list_update)
  with day show ?thesis
    by (simp add: days_set_lesson_def day_counts_def list_of_upd5 map_update at5_def)
qed

lemma mset_concat_update:
  "i < length xs \<Longrightarrow>
   mset (concat (map f (xs[i := y]))) + mset (f (xs ! i)) = mset (concat (map f xs)) + mset (f y)"
  by (induction xs arbitrary: i) (auto simp: nth_Cons' split: nat.splits)

lemma mset_all_slots_set_lesson:
  assumes "is_position ind d day slot k"
  shows "mset (all_slots (set_lesson ind d day slot k l))
           + {#((day, slot), lesson_at ind d day slot k)#}
         = mset (all_slots ind) + {#((day, slot), l)#}"
proof -
  let ?tt = "Timetables ind ! d"
  from assms have d: "d < length (Timetables ind)" and pos: "day < 5" "slot < length (at5 ?tt day)" "k < 3"
    by (simp_all add: is_position_def)
  have "mset (all_slots (set_lesson ind d day slot k l)) + mset (slots_of ?tt)
        = mset (all_slots ind) + mset (slots_of (days_set_lesson ?tt day slot k l))"
    using mset_concat_update [OF d, of slots_of] by (simp add: all_slots_def set_lesson_def)
  then have "mset (all_slots (set_lesson ind d day slot k l)) + mset (slots_of ?tt)
               + {#((day, slot), lesson_at ind d day slot k)#}
        = mset (all_slots ind) + (mset (slots_of (days_set_lesson ?tt day slot k l))
               + {#((day, slot), sg_list (at5 ?tt day ! slot) ! k)#})"
    by (simp add: lesson_at_def)
  also have "\<dots> = mset (all_slots ind) + (mset (slots_of ?tt) + {#((day, slot), l)#})"
    by (simp only: mset_slots_set_lesson [OF pos, of l])
  finally have "(mset (all_slots (set_lesson ind d day slot k l))
                  + {#((day, slot), lesson_at ind d day slot k)#}) + mset (slots_of ?tt)
        = (mset (all_slots ind) + {#((day, slot), l)#}) + mset (slots_of ?tt)"
    by (simp add: ac_simps)
  then show ?thesis by (simp only: add_right_cancel)
qed

lemma repeats_add:
  assumes "mset ys = mset xs + {#x#}"
  shows "repeats ys = repeats xs + (if x \<in> set xs then 1 else 0)"
proof -
  from assms have len: "length ys = Suc (length xs)"
    by (metis size_mset size_union size_single add.commute plus_1_eq_Suc)
  from assms have set: "set ys = insert x (set xs)"
    by (metis set_mset_mset set_mset_union set_mset_single Un_insert_right sup_bot.right_neutral)
  have le: "card (set xs) \<le> length xs" by (rule card_length)
  show ?thesis
    unfolding repeats_def length_remdups_card_conv len set
    using le by (simp add: card_insert_if)
qed

lemma repeats_mset: "mset ys = mset xs \<Longrightarrow> repeats ys = repeats xs"
  by (metis repeats_def length_remdups_card_conv mset_eq_setD size_mset)

lemma mset_map_filter_sum:
  "mset (List.map_filter f xs) = (\<Sum>a\<in>#mset xs. event_mset f a)"
  by (induction xs) (simp_all add: map_filter_simps event_mset_def split: option.splits)

lemma mset_map_filter_replace:
  assumes "mset ys + {#a#} = mset xs + {#b#}"
  shows "mset (List.map_filter f ys) + event_mset f a = mset (List.map_filter f xs) + event_mset f b"
proof -
  have "(\<Sum>e\<in>#mset ys + {#a#}. event_mset f e) = (\<Sum>e\<in>#mset xs + {#b#}. event_mset f e)"
    by (simp only: assms)
  then show ?thesis by (simp add: mset_map_filter_sum ac_simps)
qed

lemma length_filter_replace:
  assumes "mset ys + {#a#} = mset xs + {#b#}"
  shows "length (filter P ys) + (if P a then 1 else 0) = length (filter P xs) + (if P b then 1 else 0)"
proof -
  have "size (filter_mset P (mset ys + {#a#})) = size (filter_mset P (mset xs + {#b#}))"
    by (simp only: assms)
  then show ?thesis by (simp flip: mset_filter split: if_splits)
qed

lemma Timetables_set_lesson:
  "Timetables (set_lesson ind d day slot k l)
   = (Timetables ind)[d := days_set_lesson (Timetables ind ! d) day slot k l]"
  by (simp add: set_lesson_def)

lemma event_no_lesson:
  "teacher_event mem (key, no_lesson) = None" "classroom_event mem (key, no_lesson) = None"
  "\<not> matches c no_lesson" "\<not> placed no_lesson"
  by (simp_all add: teacher_event_def classroom_event_def matches_def placed_def no_lesson_def)

lemma event_unplaced:
  "\<not> placed l \<Longrightarrow> teacher_event mem (key, l) = None"
  "\<not> placed l \<Longrightarrow> classroom_event mem (key, l) = None"
  "\<not> placed l \<Longrightarrow> \<not> matches c l"
  by (simp_all add: teacher_event_def classroom_event_def matches_def)

text \<open>Removing a lesson: effect on the three components.\<close>

lemma remove_repeats:
  assumes ev: "mset ys + event_mset f a = mset xs"
    and one: "\<And>x. f a = Some x \<Longrightarrow> count_list xs x = 1"
  shows "repeats ys = repeats xs"
proof (cases "f a")
  case None
  with ev have "mset ys = mset xs" by (simp add: event_mset_def)
  then show ?thesis by (rule repeats_mset)
next
  case (Some x)
  with ev have m: "mset xs = mset ys + {#x#}" by (simp add: event_mset_def)
  have "count (mset xs) x = 1" using one [OF Some] by (simp add: count_mset)
  with m have "count (mset ys) x = 0" by simp
  then have "x \<notin> set ys" by (simp add: count_mset count_list_0_iff)
  with repeats_add [OF m] show ?thesis by simp
qed

lemma sum_list_indicator:
  "sum_list (map (\<lambda>c. f c + (if P c then 1 else 0)) cs) = sum_list (map f cs) + length (filter P cs)"
  for f :: "'a \<Rightarrow> nat"
  by (induction cs) simp_all

lemma remove_unmet:
  assumes "\<And>c. hours_placed tt' c + (if matches c l then 1 else 0) = hours_placed tt c"
  shows "unmet_hours dv tt' = unmet_hours dv tt + length (counted_chunks dv tt l)"
proof -
  have "shortfall tt' c = shortfall tt c +
          (if matches c l \<and> hours_placed tt c \<le> unat (size_chunk c) then 1 else 0)" for c
    using assms [of c] unfolding shortfall_def by (cases "matches c l") (simp, arith, simp)
  then have "shortfall tt' = (\<lambda>c. shortfall tt c +
          (if matches c l \<and> hours_placed tt c \<le> unat (size_chunk c) then 1 else 0))"
    by (simp add: fun_eq_iff)
  then show ?thesis
    unfolding unmet_hours_def counted_chunks_def by (simp only: sum_list_indicator)
qed

lemma imbalance_set_lesson:
  "day < 5 \<Longrightarrow> imbalance (days_set_lesson tt day slot k l) = imbalance tt"
  by (simp add: imbalance_def spread_def day_counts_set_lesson)

lemma sum_list_replace:
  fixes zs :: "nat list"
  shows "d < length zs \<Longrightarrow> sum_list (zs[d := v]) + zs ! d = sum_list zs + v"
  by (induction zs arbitrary: d) (auto simp: nth_Cons' split: nat.splits)

lemma sum_zip_update:
  fixes g :: "'a \<times> 'b \<Rightarrow> nat"
  assumes "d < length xs" "d < length ys"
  shows "sum_list (map g (zip xs (ys[d := y]))) + g (xs ! d, ys ! d)
         = sum_list (map g (zip xs ys)) + g (xs ! d, y)"
proof -
  have z: "zip xs (ys[d := y]) = (zip xs ys)[d := (xs ! d, y)]"
    using zip_update [of xs d "xs ! d" ys y] by simp
  have "d < length (map g (zip xs ys))" using assms by simp
  from sum_list_replace [OF this, of "g (xs ! d, y)"] assms show ?thesis
    by (simp add: z map_update)
qed

lemma sum_map_update:
  fixes g :: "'a \<Rightarrow> nat"
  assumes "d < length ys" "g y = g (ys ! d)"
  shows "sum_list (map g (ys[d := y])) = sum_list (map g ys)"
proof -
  have "map g (ys[d := y]) = map g ys"
    using assms by (intro nth_equalityI) (simp_all add: nth_list_update)
  then show ?thesis by simp
qed

lemma repeats_distinct: "distinct xs \<Longrightarrow> repeats xs = 0"
  by (simp add: repeats_def distinct_remdups_id)

lemma unmet_zero:
  assumes "allocations_met ind inp"
  shows "sum_list (map (\<lambda>(dv, tt). unmet_hours dv tt) (zip (Divisions inp) (Timetables ind))) = 0"
proof -
  have "unmet_hours dv tt = 0" if "(dv, tt) \<in> set (zip (Divisions inp) (Timetables ind))" for dv tt
  proof -
    from assms that have "\<forall>c\<in>set (extractSubjectChunks dv). unat (size_chunk c) \<le> hours_placed tt c"
      unfolding allocations_met_def list_all_iff by blast
    then show ?thesis by (simp add: unmet_hours_def shortfall_def)
  qed
  then show ?thesis by (simp add: split_def)
qed

lemma imbalance_zero:
  assumes "balanced ind"
  shows "sum_list (map imbalance (Timetables ind)) = 0"
proof -
  have "imbalance tt = 0" if "tt \<in> set (Timetables ind)" for tt
    using assms that unfolding balanced_def list_all_iff imbalance_def by auto
  then show ?thesis by simp
qed

lemma perfect_total:
  assumes "perfect mem ind inp"
  shows "penalty_total mem ind inp = 0"
proof -
  from assms have "repeats (teacher_slots mem ind) = 0" "repeats (classroom_slots mem ind) = 0"
    by (simp_all add: perfect_def repeats_distinct)
  moreover from assms
  have "sum_list (map (\<lambda>(dv, tt). unmet_hours dv tt) (zip (Divisions inp) (Timetables ind))) = 0"
    by (simp only: perfect_def unmet_zero)
  moreover from assms have "sum_list (map imbalance (Timetables ind)) = 0"
    by (simp only: perfect_def imbalance_zero)
  ultimately show ?thesis unfolding penalty_total_def by simp
qed

lemma sint_total:
  assumes "n < 2 ^ 63"
  shows "sint (of_nat n :: go_int) = int n"
proof -
  have "int n < int (2 ^ 63)" using assms by (simp only: of_nat_less_iff)
  then have "int n < 2 ^ 63" by (simp only: of_nat_power of_nat_numeral)
  moreover have "- (2 ^ 63) \<le> int n"
    by (rule order_trans [of _ 0]) simp_all
  ultimately have "signed_take_bit 63 (int n) = int n"
    by (simp only: signed_take_bit_int_eq_self)
  then show ?thesis
    by (simp only: signed_of_nat) simp
qed

text \<open>
  C2. For an Individual with a timetable for every division, \<open>fitness\<close> returns the sum of
  the penalties, \<open>penalty_total\<close>, as a 64-bit \<open>int\<close>: its signed value is that sum, hence
  not negative, as long as the sum is below \<open>2^63\<close>; and the score of an Individual with
  no repeated teacher, no repeated classroom, no unmet allocation and a spread of at most 4
  in every division is 0.
\<close>

theorem fitness_nonneg_perfect:
  assumes "length (Divisions inp) \<le> length (Timetables ind)"
  shows "\<exists>sc. fitness mem ind inp = Inr sc \<and>
           (penalty_total mem ind inp < 2 ^ 63 \<longrightarrow>
              sint sc = int (penalty_total mem ind inp) \<and> 0 \<le> sint sc) \<and>
           (perfect mem ind inp \<longrightarrow> sc = 0)"
proof -
  define sc :: go_int where "sc = of_nat (penalty_total mem ind inp)"
  have 1: "fitness mem ind inp = Inr sc"
    unfolding sc_def by (rule fitness_total [OF assms])
  have 2: "sint sc = int (penalty_total mem ind inp) \<and> 0 \<le> sint sc"
    if "penalty_total mem ind inp < 2 ^ 63"
  proof -
    from that have "sint sc = int (penalty_total mem ind inp)"
      unfolding sc_def by (rule sint_total)
    then show ?thesis by simp
  qed
  have 3: "sc = 0" if "perfect mem ind inp"
    using perfect_total [OF that] by (simp add: sc_def)
  from 1 2 3 show ?thesis by blast
qed

lemma set_lesson_replace:
  fixes l :: Lesson
  assumes pos: "is_position ind d day slot k"
  defines "tt \<equiv> Timetables ind ! d"
  defines "tt' \<equiv> days_set_lesson (Timetables ind ! d) day slot k l"
  defines "old \<equiv> lesson_at ind d day slot k"
  shows "mset (teacher_slots mem (set_lesson ind d day slot k l)) + event_mset (teacher_event mem) ((day, slot), old)
           = mset (teacher_slots mem ind) + event_mset (teacher_event mem) ((day, slot), l)"
    and "mset (classroom_slots mem (set_lesson ind d day slot k l)) + event_mset (classroom_event mem) ((day, slot), old)
           = mset (classroom_slots mem ind) + event_mset (classroom_event mem) ((day, slot), l)"
    and "hours_placed tt' c + (if matches c old then 1 else 0)
           = hours_placed tt c + (if matches c l then 1 else 0)"
    and "imbalance tt' = imbalance tt"
    and "Timetables (set_lesson ind d day slot k l) = (Timetables ind)[d := tt']"
    and "length (Timetables (set_lesson ind d day slot k l)) = length (Timetables ind)"
proof -
  from pos have d: "d < length (Timetables ind)" and p: "day < 5" "slot < length (at5 tt day)" "k < 3"
    by (simp_all add: is_position_def tt_def)
  have tt': "tt' = days_set_lesson tt day slot k l"
    by (simp add: tt'_def tt_def)
  note M = mset_all_slots_set_lesson [OF pos, of l]
  show "mset (teacher_slots mem (set_lesson ind d day slot k l)) + event_mset (teacher_event mem) ((day, slot), old)
           = mset (teacher_slots mem ind) + event_mset (teacher_event mem) ((day, slot), l)"
    unfolding teacher_slots_def old_def by (rule mset_map_filter_replace [OF M])
  show "mset (classroom_slots mem (set_lesson ind d day slot k l)) + event_mset (classroom_event mem) ((day, slot), old)
           = mset (classroom_slots mem ind) + event_mset (classroom_event mem) ((day, slot), l)"
    unfolding classroom_slots_def old_def by (rule mset_map_filter_replace [OF M])
  have old: "old = sg_list (at5 tt day ! slot) ! k" by (simp add: old_def lesson_at_def tt_def)
  from length_filter_replace [OF mset_slots_set_lesson [OF p, of l], of "\<lambda>(k, l). matches c l"]
  show "hours_placed tt' c + (if matches c old then 1 else 0)
           = hours_placed tt c + (if matches c l then 1 else 0)"
    by (simp add: hours_placed_def tt' old)
  show "imbalance tt' = imbalance tt" unfolding tt' using p(1) by (rule imbalance_set_lesson)
  show "Timetables (set_lesson ind d day slot k l) = (Timetables ind)[d := tt']"
    using d by (simp add: tt'_def Timetables_set_lesson)
  show "length (Timetables (set_lesson ind d day slot k l)) = length (Timetables ind)"
    by (simp add: Timetables_set_lesson)
qed

text \<open>
  What the allocation loop of \<open>fitness\<close> does when a lesson is removed: the score rises by 500
  for every chunk of the division that has the lesson's subject and teacher pointers and is
  not over-filled, not by 500 for the one chunk the lesson belongs to.
\<close>

lemma remove_lesson_fitness:
  assumes pos: "is_position ind d day slot k"
    and dv: "d < length (Divisions inp)"
    and len: "length (Divisions inp) \<le> length (Timetables ind)"
    and pl: "placed (lesson_at ind d day slot k)"
    and un: "unshared mem ind (day, slot) (lesson_at ind d day slot k)"
  shows "\<exists>sc. fitness mem ind inp = Inr sc \<and>
           fitness mem (set_lesson ind d day slot k no_lesson) inp
             = Inr (sc + 500 * of_nat (length (counted_chunks (Divisions inp ! d)
                                                 (Timetables ind ! d)
                                                 (lesson_at ind d day slot k))))"
proof -
  let ?old = "lesson_at ind d day slot k"
  let ?ind' = "set_lesson ind d day slot k no_lesson"
  let ?tt = "Timetables ind ! d"
  let ?tt' = "days_set_lesson ?tt day slot k no_lesson"
  let ?n = "length (counted_chunks (Divisions inp ! d) ?tt ?old)"
  note R = set_lesson_replace [OF pos, where l = no_lesson]
  from pos have d: "d < length (Timetables ind)" by (simp add: is_position_def)
  have t: "repeats (teacher_slots mem ?ind') = repeats (teacher_slots mem ind)"
  proof (rule remove_repeats)
    show "mset (teacher_slots mem ?ind') + event_mset (teacher_event mem) ((day, slot), ?old)
          = mset (teacher_slots mem ind)"
      using R(1) [where mem = mem] by (simp add: event_mset_def event_no_lesson)
    show "count_list (teacher_slots mem ind) x = 1"
      if "teacher_event mem ((day, slot), ?old) = Some x" for x
      using that un pl by (auto simp: teacher_event_def unshared_def split: option.splits)
  qed
  have c: "repeats (classroom_slots mem ?ind') = repeats (classroom_slots mem ind)"
  proof (rule remove_repeats)
    show "mset (classroom_slots mem ?ind') + event_mset (classroom_event mem) ((day, slot), ?old)
          = mset (classroom_slots mem ind)"
      using R(2) [where mem = mem] by (simp add: event_mset_def event_no_lesson)
    show "count_list (classroom_slots mem ind) x = 1"
      if "classroom_event mem ((day, slot), ?old) = Some x" for x
      using that un pl by (auto simp: classroom_event_def unshared_def split: option.splits)
  qed
  have u: "unmet_hours (Divisions inp ! d) ?tt' = unmet_hours (Divisions inp ! d) ?tt + ?n"
    by (rule remove_unmet) (use R(3) in \<open>simp add: event_no_lesson\<close>)
  have "sum_list (map (\<lambda>(dv, tt). unmet_hours dv tt) (zip (Divisions inp) (Timetables ?ind')))
          + unmet_hours (Divisions inp ! d) ?tt
        = sum_list (map (\<lambda>(dv, tt). unmet_hours dv tt) (zip (Divisions inp) (Timetables ind)))
          + unmet_hours (Divisions inp ! d) ?tt'"
    using sum_zip_update [OF dv d, of "\<lambda>(dv, tt). unmet_hours dv tt" ?tt'] R(5)
    by simp
  with u have a: "sum_list (map (\<lambda>(dv, tt). unmet_hours dv tt) (zip (Divisions inp) (Timetables ?ind')))
        = sum_list (map (\<lambda>(dv, tt). unmet_hours dv tt) (zip (Divisions inp) (Timetables ind))) + ?n"
    by simp
  have b: "sum_list (map imbalance (Timetables ?ind')) = sum_list (map imbalance (Timetables ind))"
    unfolding R(5) using d R(4) by (rule sum_map_update)
  have "penalty_total mem ?ind' inp = penalty_total mem ind inp + 500 * ?n"
    unfolding penalty_total_def t c a b by simp
  moreover have "length (Divisions inp) \<le> length (Timetables ?ind')"
    using len R(6) by simp
  ultimately have "fitness mem ?ind' inp = Inr (of_nat (penalty_total mem ind inp) + 500 * of_nat ?n)"
    by (simp add: fitness_total)
  with fitness_total [OF len, of mem] show ?thesis by blast
qed

subsection \<open>Adding a lesson\<close>

lemma day_slots_append:
  "day_slots day n (dl @ [sg]) = day_slots day n dl @ map (Pair (day, n + length dl)) (sg_list sg)"
  by (simp add: day_slots_def enumerate_append_eq)

lemma mset_slots_append:
  assumes "day < 5"
  shows "mset (slots_of (upd5 tt day (at5 tt day @ [sg])))
         = mset (slots_of tt) + mset (map (Pair (day, length (at5 tt day))) (sg_list sg))"
proof (cases tt)
  case (Arr5 a b c d e)
  from assms consider "day = 0" | "day = 1" | "day = 2" | "day = 3" | "day = 4" by linarith
  then show ?thesis
    by cases (simp_all add: Arr5 at5_def slots_of_days day_slots_append)
qed

lemma mset_all_slots_append:
  assumes "d < length (Timetables ind)" "day < 5"
  shows "mset (all_slots (append_period ind d day l))
         = mset (all_slots ind)
           + {#((day, length (at5 (Timetables ind ! d) day)), l),
               ((day, length (at5 (Timetables ind ! d) day)), no_lesson),
               ((day, length (at5 (Timetables ind ! d) day)), no_lesson)#}"
proof -
  let ?tt = "Timetables ind ! d"
  let ?tt' = "upd5 ?tt day (at5 ?tt day @ [SG l no_lesson no_lesson])"
  have "mset (all_slots (append_period ind d day l)) + mset (slots_of ?tt)
        = mset (all_slots ind) + mset (slots_of ?tt')"
    using mset_concat_update [OF assms(1), of slots_of] by (simp add: all_slots_def append_period_def)
  also have "\<dots> = (mset (all_slots ind)
           + {#((day, length (at5 ?tt day)), l), ((day, length (at5 ?tt day)), no_lesson),
               ((day, length (at5 ?tt day)), no_lesson)#}) + mset (slots_of ?tt)"
    by (simp add: mset_slots_append [OF assms(2)])
  finally show ?thesis by (simp only: add_right_cancel)
qed

lemma mset_map_filter_add:
  assumes "mset ys = mset xs + M"
  shows "mset (List.map_filter f ys) = mset (List.map_filter f xs) + (\<Sum>a\<in>#M. event_mset f a)"
proof -
  have "(\<Sum>e\<in>#mset ys. event_mset f e) = (\<Sum>e\<in>#mset xs + M. event_mset f e)"
    by (simp only: assms)
  then show ?thesis by (simp add: mset_map_filter_sum)
qed

lemma adds_lesson_effect:
  assumes add: "adds_lesson ind d day slot l ind'"
  shows "mset (teacher_slots mem ind')
           = mset (teacher_slots mem ind) + event_mset (teacher_event mem) ((day, slot), l)"
    and "mset (classroom_slots mem ind')
           = mset (classroom_slots mem ind) + event_mset (classroom_event mem) ((day, slot), l)"
    and "hours_placed (Timetables ind' ! d) c
           = hours_placed (Timetables ind ! d) c + (if matches c l then 1 else 0)"
    and "Timetables ind' = (Timetables ind)[d := Timetables ind' ! d]"
    and "d < length (Timetables ind)"
    and "slot < length (at5 (Timetables ind ! d) day) \<Longrightarrow>
           day_counts (Timetables ind' ! d) = day_counts (Timetables ind ! d)"
proof -
  let ?tt = "Timetables ind ! d"
  from add have d: "d < length (Timetables ind)" and day: "day < 5"
    by (simp_all add: adds_lesson_def)
  show "d < length (Timetables ind)" by (rule d)
  have "(mset (teacher_slots mem ind')
           = mset (teacher_slots mem ind) + event_mset (teacher_event mem) ((day, slot), l)) \<and>
        (mset (classroom_slots mem ind')
           = mset (classroom_slots mem ind) + event_mset (classroom_event mem) ((day, slot), l)) \<and>
        (hours_placed (Timetables ind' ! d) c
           = hours_placed ?tt c + (if matches c l then 1 else 0)) \<and>
        Timetables ind' = (Timetables ind)[d := Timetables ind' ! d] \<and>
        (slot < length (at5 ?tt day) \<longrightarrow> day_counts (Timetables ind' ! d) = day_counts ?tt)"
  proof (cases "slot < length (at5 ?tt day)")
    case True
    with add obtain k where k: "k < 3" "\<not> placed (lesson_at ind d day slot k)"
        "ind' = set_lesson ind d day slot k l"
      by (auto simp: adds_lesson_def list_ex_iff)
    from d day True k(1) have pos: "is_position ind d day slot k" by (simp add: is_position_def)
    note R = set_lesson_replace [OF pos, where l = l]
    have tt': "Timetables ind' ! d = days_set_lesson ?tt day slot k l"
      using d by (simp add: k(3) Timetables_set_lesson)
    have 1: "mset (teacher_slots mem ind')
           = mset (teacher_slots mem ind) + event_mset (teacher_event mem) ((day, slot), l)"
      using R(1) [where mem = mem] k(2) by (simp add: k(3) event_mset_def event_unplaced)
    have 2: "mset (classroom_slots mem ind')
           = mset (classroom_slots mem ind) + event_mset (classroom_event mem) ((day, slot), l)"
      using R(2) [where mem = mem] k(2) by (simp add: k(3) event_mset_def event_unplaced)
    have 3: "hours_placed (Timetables ind' ! d) c
           = hours_placed ?tt c + (if matches c l then 1 else 0)"
      using R(3) [of c] k(2) unfolding tt' by (simp add: event_unplaced)
    have 4: "Timetables ind' = (Timetables ind)[d := Timetables ind' ! d]"
      unfolding tt' by (simp add: k(3) Timetables_set_lesson)
    have 5: "day_counts (Timetables ind' ! d) = day_counts ?tt"
      unfolding tt' using day by (rule day_counts_set_lesson)
    from 1 2 3 4 5 show ?thesis by blast
  next
    case False
    with add have slot: "slot = length (at5 ?tt day)" and ind': "ind' = append_period ind d day l"
      by (simp_all add: adds_lesson_def)
    let ?sg = "SG l no_lesson no_lesson"
    have tt': "Timetables ind' ! d = upd5 ?tt day (at5 ?tt day @ [?sg])"
      using d by (simp add: ind' append_period_def)
    note M = mset_all_slots_append [OF d day, of l, folded slot, folded ind']
    have 1: "mset (teacher_slots mem ind')
           = mset (teacher_slots mem ind) + event_mset (teacher_event mem) ((day, slot), l)"
      unfolding teacher_slots_def mset_map_filter_add [OF M]
      by (simp add: event_mset_def event_no_lesson)
    have 2: "mset (classroom_slots mem ind')
           = mset (classroom_slots mem ind) + event_mset (classroom_event mem) ((day, slot), l)"
      unfolding classroom_slots_def mset_map_filter_add [OF M]
      by (simp add: event_mset_def event_no_lesson)
    have "size (filter_mset (\<lambda>(k, l). matches c l) (mset (slots_of (Timetables ind' ! d))))
          = size (filter_mset (\<lambda>(k, l). matches c l) (mset (slots_of ?tt)))
            + (if matches c l then 1 else 0)"
      unfolding tt' mset_slots_append [OF day] by (simp add: event_no_lesson)
    then have 3: "hours_placed (Timetables ind' ! d) c
           = hours_placed ?tt c + (if matches c l then 1 else 0)"
      by (simp add: hours_placed_def flip: mset_filter)
    have 4: "Timetables ind' = (Timetables ind)[d := Timetables ind' ! d]"
      unfolding tt' by (simp add: ind' append_period_def)
    from 1 2 3 4 False show ?thesis by blast
  qed
  then show "mset (teacher_slots mem ind')
           = mset (teacher_slots mem ind) + event_mset (teacher_event mem) ((day, slot), l)"
    and "mset (classroom_slots mem ind')
           = mset (classroom_slots mem ind) + event_mset (classroom_event mem) ((day, slot), l)"
    and "hours_placed (Timetables ind' ! d) c
           = hours_placed (Timetables ind ! d) c + (if matches c l then 1 else 0)"
    and "Timetables ind' = (Timetables ind)[d := Timetables ind' ! d]"
    and "slot < length (at5 (Timetables ind ! d) day) \<Longrightarrow>
           day_counts (Timetables ind' ! d) = day_counts (Timetables ind ! d)"
    by blast+
qed

lemma add_unmet:
  assumes "\<And>c. hours_placed tt c \<le> hours_placed tt' c"
  shows "unmet_hours dv tt' \<le> unmet_hours dv tt"
  unfolding unmet_hours_def shortfall_def
  by (rule sum_list_mono) (use assms in \<open>simp add: diff_le_mono2\<close>)

text \<open>
  C4. A lesson is added to a division either in an unused parallel position of an existing
  period or as a new last period of a weekday. When its teacher is already present at that
  weekday and period index, the overlap score (1000 for every repeated teacher and every
  repeated classroom of a slot, over all divisions) rises by 1000, and by 1000 more when
  its classroom is already in use there as well. On a perfect Individual the fitness goes
  from 0 to that amount plus 5 times the spread of the division's day loads if the new
  period brings the spread above 4; a lesson placed in an existing period leaves the day
  loads as they were.
\<close>

theorem add_duplicate_teacher:
  assumes add: "adds_lesson ind d day slot l ind'"
    and dv: "d < length (Divisions inp)"
    and len: "length (Divisions inp) \<le> length (Timetables ind)"
    and dup: "teacher_twice mem ind (day, slot) l"
  shows "score (check_overlaps mem ind)
           = of_nat (1000 * (repeats (teacher_slots mem ind) + repeats (classroom_slots mem ind))) \<and>
         score (check_overlaps mem ind')
           = score (check_overlaps mem ind) + 1000
             + 1000 * of_nat (room_twice mem ind (day, slot) l) \<and>
         (perfect mem ind inp \<longrightarrow>
            fitness mem ind inp = Inr 0 \<and>
            fitness mem ind' inp
              = Inr (1000 + 1000 * of_nat (room_twice mem ind (day, slot) l)
                     + 5 * of_nat (imbalance (Timetables ind' ! d))) \<and>
            (slot < length (at5 (Timetables ind ! d) day) \<longrightarrow>
               imbalance (Timetables ind' ! d) = 0))"
proof -
  let ?tt = "Timetables ind ! d"
  let ?tt' = "Timetables ind' ! d"
  let ?rc = "room_twice mem ind (day, slot) l"
  note E = adds_lesson_effect [OF add]
  note d = E(5)
  from dup obtain p where p: "out_Teacher l = Some p" "placed l"
      "((day, slot), teacher_at mem p) \<in> set (teacher_slots mem ind)"
    by (auto simp: teacher_twice_def split: option.splits)
  have "mset (teacher_slots mem ind') = mset (teacher_slots mem ind) + {#((day, slot), teacher_at mem p)#}"
    using E(1) [where mem = mem] p by (simp add: event_mset_def teacher_event_def)
  from repeats_add [OF this] p(3)
  have t: "repeats (teacher_slots mem ind') = repeats (teacher_slots mem ind) + 1" by simp
  have c: "repeats (classroom_slots mem ind') = repeats (classroom_slots mem ind) + ?rc"
  proof (cases "out_Classroom l")
    case None
    with E(2) [where mem = mem] have "mset (classroom_slots mem ind') = mset (classroom_slots mem ind)"
      by (simp add: event_mset_def classroom_event_def)
    from repeats_mset [OF this] None show ?thesis by (simp add: room_twice_def)
  next
    case (Some q)
    from Some E(2) [where mem = mem] p(2)
    have "mset (classroom_slots mem ind')
          = mset (classroom_slots mem ind) + {#((day, slot), classroom_at mem q)#}"
      by (simp add: event_mset_def classroom_event_def)
    from repeats_add [OF this] Some show ?thesis by (simp add: room_twice_def)
  qed
  have overlap: "score (check_overlaps mem ind')
      = score (check_overlaps mem ind) + 1000 + 1000 * of_nat ?rc"
    by (simp add: check_overlaps_score t c algebra_simps)
  have len': "length (Divisions inp) \<le> length (Timetables ind')"
    using len by (subst E(4)) simp
  have fit: "fitness mem ind inp = Inr 0 \<and>
             fitness mem ind' inp = Inr (1000 + 1000 * of_nat ?rc + 5 * of_nat (imbalance ?tt')) \<and>
             (slot < length (at5 ?tt day) \<longrightarrow> imbalance ?tt' = 0)"
    if perf: "perfect mem ind inp"
  proof -
    have tot: "penalty_total mem ind inp = 0" using perf by (rule perfect_total)
    then have z: "repeats (teacher_slots mem ind) = 0" "repeats (classroom_slots mem ind) = 0"
      "sum_list (map (\<lambda>(dv, tt). unmet_hours dv tt) (zip (Divisions inp) (Timetables ind))) = 0"
      "sum_list (map imbalance (Timetables ind)) = 0"
      by (simp_all add: penalty_total_def)
    have "hours_placed ?tt c \<le> hours_placed ?tt' c" for c
      using E(3) [of c] by simp
    then have "unmet_hours (Divisions inp ! d) ?tt' \<le> unmet_hours (Divisions inp ! d) ?tt"
      by (rule add_unmet)
    moreover have "sum_list (map (\<lambda>(dv, tt). unmet_hours dv tt) (zip (Divisions inp) (Timetables ind')))
          + unmet_hours (Divisions inp ! d) ?tt
        = sum_list (map (\<lambda>(dv, tt). unmet_hours dv tt) (zip (Divisions inp) (Timetables ind)))
          + unmet_hours (Divisions inp ! d) ?tt'"
      using sum_zip_update [OF dv d, of "\<lambda>(dv, tt). unmet_hours dv tt" ?tt']
      by (subst E(4)) simp
    ultimately have a: "sum_list (map (\<lambda>(dv, tt). unmet_hours dv tt) (zip (Divisions inp) (Timetables ind'))) = 0"
      using z(3) by linarith
    have "d < length (map imbalance (Timetables ind))" using d by simp
    from sum_list_replace [OF this, of "imbalance ?tt'"]
    have "sum_list (map imbalance ((Timetables ind)[d := ?tt'])) + imbalance ?tt
          = sum_list (map imbalance (Timetables ind)) + imbalance ?tt'"
      using d by (simp add: map_update)
    moreover have "?tt \<in> set (Timetables ind)" using d by simp
    then have "spread ?tt \<le> 4" using perf by (simp add: perfect_def balanced_def list_all_iff)
    then have old: "imbalance ?tt = 0" by (simp add: imbalance_def)
    ultimately have "sum_list (map imbalance ((Timetables ind)[d := ?tt'])) = imbalance ?tt'"
      using z(4) old by simp
    then have b: "sum_list (map imbalance (Timetables ind')) = imbalance ?tt'"
      by (subst E(4)) simp
    have "penalty_total mem ind' inp = 1000 + 1000 * ?rc + 5 * imbalance ?tt'"
      unfolding penalty_total_def t c a b z by simp
    then have "fitness mem ind' inp = Inr (1000 + 1000 * of_nat ?rc + 5 * of_nat (imbalance ?tt'))"
      using len' by (simp add: fitness_total)
    moreover have "imbalance ?tt' = 0" if "slot < length (at5 ?tt day)"
      proof -
      from E(6) [OF that] have "spread ?tt' = spread ?tt" by (simp add: spread_def)
      with \<open>spread ?tt \<le> 4\<close> show ?thesis by (simp add: imbalance_def)
    qed
    ultimately show ?thesis using fitness_total [OF len, of mem] tot by simp
  qed
  from overlap fit show ?thesis by (simp only: check_overlaps_score) blast
qed


subsection \<open>The properties on concrete timetables\<close>

theorem fitness_negative:
  "fitness school no_hours (instance_of [[endless]]) = Inr (- 500) \<and>
   sint (- 500 :: go_int) < 0"
  by code_simp

theorem fitness_nonneg_perfect_witness:
  "length (Divisions (instance_of [[maths]])) \<le> length (Timetables solo) \<and>
   penalty_total school solo (instance_of [[maths]]) < 2 ^ 63 \<and>
   perfect school solo (instance_of [[maths]]) \<and>
   fitness school solo (instance_of [[maths]]) = Inr 0 \<and> sint (0 :: go_int) = 0"
proof -
  have len: "length (Divisions (instance_of [[maths]])) \<le> length (Timetables solo)"
    by code_simp
  have tot: "penalty_total school solo (instance_of [[maths]]) = 0" by code_simp
  have per: "perfect school solo (instance_of [[maths]])" by code_simp
  from fitness_nonneg_perfect [OF len, of school] per tot len show ?thesis by auto
qed

text \<open>
  C3. The division needs 2 + 1 hours of one subject. The builder places all three, the score
  is 0. After one of the three placed lessons is replaced by the empty lesson, two hours are
  placed and one is missing, yet the score is still 0: each of the two remaining lessons is
  counted against both chunks (the loop over \<open>remaining\<close> has no \<open>break\<close>), so both
  chunks count as met.
\<close>

theorem removal_keeps_score:
  "extractSubjectChunks (Divisions (instance_of [[polish]]) ! 0)
     = [\<lparr>subj = polish, size_chunk = 2\<rparr>, \<lparr>subj = polish, size_chunk = 1\<rparr>] \<and>
   placed (lesson_at trio 0 1 0 0) \<and>
   list_all (\<lambda>c. matches c (lesson_at trio 0 1 0 0))
            (extractSubjectChunks (Divisions (instance_of [[polish]]) ! 0)) \<and>
   length (filter (\<lambda>(k, l). placed l) (slots_of (Timetables trio ! 0))) = 3 \<and>
   fitness school trio (instance_of [[polish]]) = Inr 0 \<and>
   length (filter (\<lambda>(k, l). placed l)
             (slots_of (Timetables (set_lesson trio 0 1 0 0 no_lesson) ! 0))) = 2 \<and>
   fitness school (set_lesson trio 0 1 0 0 no_lesson) (instance_of [[polish]]) = Inr 0 \<and>
   (0 :: go_int) \<noteq> 0 + 500"
  by code_simp

lemma remove_lesson_fitness_example:
  "is_position solo 0 0 1 0 \<and> 0 < length (Divisions (instance_of [[maths]])) \<and>
   length (Divisions (instance_of [[maths]])) \<le> length (Timetables solo) \<and>
   placed (lesson_at solo 0 0 1 0) \<and> unshared school solo (0, 1) (lesson_at solo 0 0 1 0) \<and>
   length (counted_chunks (Divisions (instance_of [[maths]]) ! 0) (Timetables solo ! 0)
             (lesson_at solo 0 0 1 0)) = 1 \<and>
   fitness school solo (instance_of [[maths]]) = Inr 0 \<and>
   fitness school (set_lesson solo 0 0 1 0 no_lesson) (instance_of [[maths]]) = Inr 500"
proof -
  have pos: "is_position solo 0 0 1 0" by code_simp
  have dv: "0 < length (Divisions (instance_of [[maths]]))" by code_simp
  have len: "length (Divisions (instance_of [[maths]])) \<le> length (Timetables solo)" by code_simp
  have pl: "placed (lesson_at solo 0 0 1 0)" by code_simp
  have un: "unshared school solo (0, 1) (lesson_at solo 0 0 1 0)" by code_simp
  have n: "length (counted_chunks (Divisions (instance_of [[maths]]) ! 0) (Timetables solo ! 0)
             (lesson_at solo 0 0 1 0)) = 1" by code_simp
  have f: "fitness school solo (instance_of [[maths]]) = Inr 0" by code_simp
  from remove_lesson_fitness [OF pos dv len pl un] f
  have "fitness school (set_lesson solo 0 0 1 0 no_lesson) (instance_of [[maths]]) = Inr 500"
    unfolding n by simp
  with pos dv len pl un n f show ?thesis by simp
qed

theorem duplicate_teacher_costs_more:
  "perfect school week (instance_of [[maths4], [history9]]) \<and>
   fitness school week (instance_of [[maths4], [history9]]) = Inr 0 \<and>
   map length (list_of (Timetables week ! 0)) = [4, 0, 0, 0, 0] \<and>
   teacher_twice school week (0, 4) late_lesson \<and>
   fitness school (append_period week 0 0 late_lesson) (instance_of [[maths4], [history9]])
     = Inr 1025 \<and>
   perfect school duo (instance_of [[maths], [history]]) \<and>
   fitness school duo (instance_of [[maths], [history]]) = Inr 0 \<and>
   \<not> placed (lesson_at duo 1 0 0 1) \<and>
   teacher_twice school duo (0, 0) clash_lesson \<and>
   fitness school (set_lesson duo 1 0 0 1 clash_lesson) (instance_of [[maths], [history]])
     = Inr 2000"
  by code_simp

theorem add_duplicate_teacher_witness:
  "adds_lesson duo 1 0 0 extra_lesson (set_lesson duo 1 0 0 1 extra_lesson) \<and>
   adds_lesson week 0 0 4 late_lesson (append_period week 0 0 late_lesson) \<and>
   1 < length (Divisions (instance_of [[maths], [history]])) \<and>
   length (Divisions (instance_of [[maths], [history]])) \<le> length (Timetables duo) \<and>
   teacher_twice school duo (0, 0) extra_lesson \<and>
   teacher_twice school week (0, 4) late_lesson \<and>
   perfect school duo (instance_of [[maths], [history]]) \<and>
   perfect school week (instance_of [[maths4], [history9]]) \<and>
   fitness school duo (instance_of [[maths], [history]]) = Inr 0 \<and>
   fitness school (set_lesson duo 1 0 0 1 extra_lesson) (instance_of [[maths], [history]]) = Inr 1000 \<and>
   fitness school (append_period week 0 0 late_lesson) (instance_of [[maths4], [history9]]) = Inr 1025"
proof -
  have add: "adds_lesson duo 1 0 0 extra_lesson (set_lesson duo 1 0 0 1 extra_lesson)" by code_simp
  have dv: "1 < length (Divisions (instance_of [[maths], [history]]))" by code_simp
  have len: "length (Divisions (instance_of [[maths], [history]])) \<le> length (Timetables duo)"
    by code_simp
  have dup: "teacher_twice school duo (0, 0) extra_lesson" by code_simp
  have per: "perfect school duo (instance_of [[maths], [history]])" by code_simp
  have rc: "room_twice school duo (0, 0) extra_lesson = 0" by code_simp
  have slot: "0 < length (at5 (Timetables duo ! 1) 0)" by code_simp
  have add': "adds_lesson week 0 0 4 late_lesson (append_period week 0 0 late_lesson)" by code_simp
  have dv': "0 < length (Divisions (instance_of [[maths4], [history9]]))" by code_simp
  have len': "length (Divisions (instance_of [[maths4], [history9]])) \<le> length (Timetables week)"
    by code_simp
  have dup': "teacher_twice school week (0, 4) late_lesson" by code_simp
  have per': "perfect school week (instance_of [[maths4], [history9]])" by code_simp
  have rc': "room_twice school week (0, 4) late_lesson = 0" by code_simp
  have im': "imbalance (Timetables (append_period week 0 0 late_lesson) ! 0) = 5" by code_simp
  from add_duplicate_teacher [OF add dv len dup] per slot
  have 1: "fitness school duo (instance_of [[maths], [history]]) = Inr 0"
    "fitness school (set_lesson duo 1 0 0 1 extra_lesson) (instance_of [[maths], [history]]) = Inr 1000"
    by (simp_all add: rc)
  from add_duplicate_teacher [OF add' dv' len' dup'] per'
  have 2: "fitness school (append_period week 0 0 late_lesson) (instance_of [[maths4], [history9]])
           = Inr 1025"
    by (simp add: rc' im')
  from add dv len dup per add' dup' per' 1 2 show ?thesis by simp
qed

theorem builder_places_no_lesson:
  "hours_placed (Timetables (built (instance_of [[nameless]]) [0, 1]) ! 0)
     \<lparr>subj = nameless, size_chunk = 2\<rparr> = 0 \<and>
   extractSubjectChunks (Divisions (instance_of [[nameless]]) ! 0)
     = [\<lparr>subj = nameless, size_chunk = 2\<rparr>] \<and>
   length (periods (Timetables (built (instance_of [[nameless]]) [0, 1]) ! 0)) = 2 \<and>
   fitness school (built (instance_of [[nameless]]) [0, 1]) (instance_of [[nameless]]) = Inr 1000"
  by code_simp

theorem randomIndividual_places_chunks_witness:
  "0 < length (Divisions (instance_of [[polish]])) \<and>
   GlobalSubject polish \<noteq> None \<and>
   image_mset without_room (mset (periods (Timetables trio ! 0)))
     = mset [new_period polish None, new_period polish None, new_period polish None] \<and>
   hours_placed (Timetables trio ! 0) \<lparr>subj = polish, size_chunk = 2\<rparr> = 3 \<and>
   hours_required polish = 3 \<and>
   0 < length (Divisions (instance_of [[maths]])) \<and>
   GlobalSubject maths \<noteq> None \<and>
   filter (\<lambda>c'. same_requirement maths (subj c'))
          (extractSubjectChunks (Divisions (instance_of [[maths]]) ! 0))
     = [\<lparr>subj = maths, size_chunk = 2\<rparr>] \<and>
   hours_placed (Timetables solo ! 0) \<lparr>subj = maths, size_chunk = 2\<rparr> = 2 \<and>
   0 < length (Divisions (instance_of [[nameless]])) \<and>
   GlobalSubject nameless = None \<and>
   hours_placed (Timetables (built (instance_of [[nameless]]) [0, 1]) ! 0)
     \<lparr>subj = nameless, size_chunk = 2\<rparr> = 0"
proof -
  have dv: "0 < length (Divisions (instance_of [[polish]]))" by code_simp
  have gs: "GlobalSubject (subj \<lparr>subj = polish, size_chunk = 2\<rparr>) \<noteq> None" by code_simp
  have chunks: "concat (map (\<lambda>c. replicate (unat (size_chunk c)) (new_period (subj c) None))
                   (extractSubjectChunks (Divisions (instance_of [[polish]]) ! 0)))
                = [new_period polish None, new_period polish None, new_period polish None]"
    by code_simp
  have hrs: "sum_list (map hours_required
              (filter (same_requirement (subj \<lparr>subj = polish, size_chunk = 2\<rparr>))
                 (Subjects (Divisions (instance_of [[polish]]) ! 0)))) = 3" by code_simp
  have h3: "hours_required polish = 3" by code_simp
  note built = randomIndividual_places_chunks [OF dv, of "\<lparr>tape = draws [], pos = 0\<rparr>",
      folded built_def, folded trio_def, unfolded chunks]
  from built have 1: "image_mset without_room (mset (periods (Timetables trio ! 0)))
      = mset [new_period polish None, new_period polish None, new_period polish None]"
    by blast
  from built gs
  have 2: "hours_placed (Timetables trio ! 0) \<lparr>subj = polish, size_chunk = 2\<rparr>
        = sum_list (map hours_required
              (filter (same_requirement (subj \<lparr>subj = polish, size_chunk = 2\<rparr>))
                 (Subjects (Divisions (instance_of [[polish]]) ! 0))))"
    by blast
  have dv': "0 < length (Divisions (instance_of [[maths]]))" by code_simp
  have gs': "GlobalSubject (subj \<lparr>subj = maths, size_chunk = 2\<rparr>) \<noteq> None" by code_simp
  have only: "filter (\<lambda>c'. same_requirement (subj \<lparr>subj = maths, size_chunk = 2\<rparr>) (subj c'))
          (extractSubjectChunks (Divisions (instance_of [[maths]]) ! 0))
     = [\<lparr>subj = maths, size_chunk = 2\<rparr>]" by code_simp
  have two: "unat (size_chunk \<lparr>subj = maths, size_chunk = 2\<rparr>) = 2" by simp
  from randomIndividual_places_chunks [OF dv', of "\<lparr>tape = draws [0, 1], pos = 0\<rparr>",
      folded built_def, folded solo_def] gs' only
  have "hours_placed (Timetables solo ! 0) \<lparr>subj = maths, size_chunk = 2\<rparr>
        = unat (size_chunk \<lparr>subj = maths, size_chunk = 2\<rparr>)"
    by blast
  then have 3: "hours_placed (Timetables solo ! 0) \<lparr>subj = maths, size_chunk = 2\<rparr> = 2"
    by (simp only: two)
  have dv'': "0 < length (Divisions (instance_of [[nameless]]))" by code_simp
  have gs'': "GlobalSubject (subj \<lparr>subj = nameless, size_chunk = 2\<rparr>) = None" by code_simp
  from randomIndividual_places_chunks [OF dv'', of "\<lparr>tape = draws [0, 1], pos = 0\<rparr>",
      folded built_def] gs''
  have 4: "hours_placed (Timetables (built (instance_of [[nameless]]) [0, 1]) ! 0)
     \<lparr>subj = nameless, size_chunk = 2\<rparr> = 0"
    by blast
  from dv gs 1 2 hrs h3 dv' gs' only 3 dv'' gs'' 4 show ?thesis by simp
qed

theorem randomIndividual_balanced_witness:
  "0 < length (Divisions (instance_of [[maths]])) \<and>
   list_all (\<lambda>c. unat (size_chunk c) \<le> 4) (extractSubjectChunks (Divisions (instance_of [[maths]]) ! 0)) \<and>
   spread (Timetables solo ! 0) \<le> 2 \<and> balance_penalty (Timetables solo ! 0) 0 = 0"
proof -
  have dv: "0 < length (Divisions (instance_of [[maths]]))" by code_simp
  have big: "largest_chunk (extractSubjectChunks (Divisions (instance_of [[maths]]) ! 0)) = 2"
    by code_simp
  have all: "list_all (\<lambda>c. unat (size_chunk c) \<le> 4)
               (extractSubjectChunks (Divisions (instance_of [[maths]]) ! 0))" by code_simp
  from randomIndividual_balanced [OF dv, of "\<lparr>tape = draws [0, 1], pos = 0\<rparr>" 0] dv all
  show ?thesis
    unfolding big solo_def built_def by simp
qed

subsection \<open>The order of the scored population\<close>

text \<open>
  \<open>sort_fits\<close> returns the individuals in ascending order of score. When no two scores are
  equal this is the only such order: whatever \<open>sort.Slice\<close> does with equal scores, it
  returns \<open>sort_fits fits\<close> on a population without ties.
\<close>

lemma mset_insert_fit: "mset (insert_fit x ys) = add_mset x (mset ys)"
  by (induction ys) simp_all

lemma mset_fold_insert_fit: "mset (fold insert_fit xs acc) = mset xs + mset acc"
  by (induction xs arbitrary: acc) (simp_all add: mset_insert_fit)

lemma sort_fits_mset: "mset (sort_fits fits) = mset fits"
  by (simp add: sort_fits_def mset_fold_insert_fit)

lemma set_insert_fit: "set (insert_fit x ys) = insert x (set ys)"
  by (induction ys) auto

lemma sorted_insert_fit:
  "sorted (map (\<lambda>a. sint (snd a)) ys) \<Longrightarrow> sorted (map (\<lambda>a. sint (snd a)) (insert_fit x ys))"
  by (induction ys) (auto simp: word_sless_alt set_insert_fit)

lemma sorted_fold_insert_fit:
  "sorted (map (\<lambda>a. sint (snd a)) acc) \<Longrightarrow>
   sorted (map (\<lambda>a. sint (snd a)) (fold insert_fit xs acc))"
  by (induction xs arbitrary: acc) (simp_all add: sorted_insert_fit)

lemma sort_fits_sorted: "sorted (map (\<lambda>a. sint (snd a)) (sort_fits fits))"
  by (simp add: sort_fits_def sorted_fold_insert_fit)

lemma sort_fits_unique:
  assumes tie_free: "distinct (map snd fits)"
    and perm: "mset ys = mset fits"
    and sorted: "sorted_wrt (\<lambda>a b. \<not> snd b <s snd a) ys"
  shows "ys = sort_fits fits"
proof -
  let ?key = "\<lambda>a :: fitInd. sint (snd a)"
  have eq: "v = w" if "sint v = sint w" for v w :: go_int
    using that by (rule signed_word_eqI)
  from tie_free have "inj_on snd (set fits)" by (simp add: distinct_map)
  then have inj: "inj_on ?key (set fits)"
    by (auto simp: inj_on_def dest: eq)
  have sets: "set ys = set fits" "set (sort_fits fits) = set fits"
    using perm sort_fits_mset [of fits] by (metis set_mset_mset)+
  have d: "distinct (map ?key fits)"
    using tie_free inj by (simp add: distinct_map)
  have dy: "distinct (map ?key ys)"
    using d perm by (metis distinct_map mset_eq_imp_distinct_iff sets(1) inj distinct_map)
  have ds: "distinct (map ?key (sort_fits fits))"
    using d sort_fits_mset [of fits]
    by (metis distinct_map mset_eq_imp_distinct_iff sets(2) inj distinct_map)
  have sy: "sorted (map ?key ys)"
    using sorted by (simp add: sorted_map word_sless_alt not_less)
  have "map ?key ys = map ?key (sort_fits fits)"
    by (rule sorted_distinct_set_unique [OF sy dy sort_fits_sorted ds]) (simp add: sets)
  moreover have "inj_on ?key (set ys \<union> set (sort_fits fits))"
    using inj by (simp add: sets)
  ultimately show ?thesis by (simp add: inj_on_map_eq_map)
qed

subsection \<open>Runs of the evolutionary loop\<close>

text \<open>
  A run on a concrete instance is computed by rewriting with the definitions of the loop.
  The rules below make the rewriting follow the order of evaluation of the program: the
  argument of a \<open>let\<close>, of a \<open>case\<close> and of \<open>and_then\<close> is computed before the body is
  entered.
\<close>

lemmas eval_congs = if_weak_cong let_weak_cong prod.case_cong_weak sum.case_cong_weak
  option.case_cong_weak list.case_cong_weak nat.case_cong_weak

lemma and_then_weak_cong: "m = m' \<Longrightarrow> and_then m f = and_then m' f"
  by simp

lemma and_then_simps: "and_then (Inl e) f = Inl e" "and_then (Inr x) f = f x"
  by (simp_all add: and_then_def)

lemma place_hours_numeral:
  "place_hours sj (numeral k) (d, r) =
     (let (c, r') = pickClassroom sj r
      in place_hours sj (pred_numeral k) (d @ [new_period sj c], r'))"
  by (simp add: numeral_eq_Suc)

lemma fill_population_numeral:
  "fill_population inp (numeral k) (pop, h, r) =
     (let (ind, h', r') = randomIndividual_ref inp (h, r)
      in fill_population inp (pred_numeral k) (pop @ [ind], h', r'))"
  by (simp add: numeral_eq_Suc)

lemma cross_days_numeral:
  "cross_days (numeral k) dx p2 (child, r) =
     and_then (Intn 5 r) (\<lambda>(day, r').
       if length p2 \<le> dx then Inl IndexOutOfRange
       else cross_days (pred_numeral k) dx p2
              (child[dx := upd5 (child ! dx) day (at5 (p2 ! dx) day)], r'))"
  by (simp add: numeral_eq_Suc)

lemma days_upt:
  "[Suc 0..<5] = [Suc 0, Suc (Suc 0), Suc (Suc (Suc 0)), Suc (Suc (Suc (Suc 0)))]"
  by (simp add: upt_rec)

lemma draws_at:
  "clash_draws seed i = draws [0, 1, 0, 1, 0, 0, 0, 0, 0, 0, 0, 0, 0, 0, 0, 1] i"
  "breeding_draws i = draws [0, 1, 0, 1, 0, 0, 0, 1, 1, 0, 0, 0, 0, 1] i"
  "clock_draws seed i = nat seed"
  by (simp_all add: clash_draws_def breeding_draws_def clock_draws_def)

lemma examples_fields:
  "Divisions two_classes = [\<lparr>Name = ''Division'', Weight = 1, Subjects = [maths]\<rparr>,
                            \<lparr>Name = ''Division'', Weight = 1, Subjects = [physics]\<rparr>]"
  "Divisions one_class = [\<lparr>Name = ''Division'', Weight = 1, Subjects = [maths]\<rparr>]"
  "Classrooms maths = [Some 0, Some 1]" "Classrooms physics = [Some 1]"
  "Allocation maths = Arr5 2 0 0 0 0" "Allocation physics = Arr5 1 0 0 0 0"
  "PopulationSize small_run = 2" "Generations small_run = 1" "MutationRate small_run = 1 / 2"
  by (simp_all add: two_classes_def one_class_def instance_of_def maths_def physics_def
      small_run_def)

lemma fitness_monday_first:
  "fitness school
     \<lparr>Timetables = [Arr5 [new_period maths (Some 0), new_period maths (Some (Suc 0))] [] [] [] [],
                     Arr5 [new_period physics (Some (Suc 0))] [] [] [] []]\<rparr> two_classes
   = Inr 1000"
  by code_simp

lemma fitness_monday_swapped:
  "fitness school
     \<lparr>Timetables = [Arr5 [new_period maths (Some (Suc 0)), new_period maths (Some 0)] [] [] [] [],
                     Arr5 [new_period physics (Some (Suc 0))] [] [] [] []]\<rparr> two_classes
   = Inr 2000"
  by code_simp

lemmas builder_eval = randomIndividual_def build_days_def extractSubjectChunks_def
  examples_fields place_chunk_def pickLeastLoadedDay_def pickClassroom_def draw_def draws_at
  draws_def at5_def days_upt place_hours_numeral Let_def

lemmas solve_eval = Solve_def initializePopulation_def fill_population_numeral
  randomIndividual_ref_def store_individual_def new_slice_def empty_store_def load_def
  and_then_simps fitness_monday_first fitness_monday_swapped sort_fits_def select_elite_def
  pick_parent_def Intn_def Float64_def crossover_def cross_days_numeral mutate_def

text \<open>
  C1. Two individuals, one generation, mutation probability 1/2. The builder's first
  individual scores 1000 (teacher \<open>LJ\<close> is in both divisions in the first period of Monday),
  the second scores 2000 (there the two divisions also share classroom \<open>14\<close>). The first
  individual is retained as the best one seen and is the only survivor; the child bred from
  it holds the same day slices, and the mutation of the child swaps the two Monday periods
  in the array they share. \<open>Solve\<close> returns the retained individual as it is after the swap:
  its score is 2000, worse than the best score of the initial population.
\<close>

theorem Solve_returns_worse:
  "initial_scores school small_run two_classes \<lparr>tape = clash_draws 0, pos = 0\<rparr>
     = [Inr 1000, Inr 2000] \<and>
   Solve clash_draws school small_run two_classes idle 0
     = Inr \<lparr>DivisionsTimetables = Timetables monday_swapped\<rparr> \<and>
   fitness school monday_swapped two_classes = Inr 2000 \<and>
   (1000 :: go_int) <s 2000"
proof -
  have "initial_scores school small_run two_classes \<lparr>tape = clash_draws 0, pos = 0\<rparr>
     = [Inr 1000, Inr 2000]"
    by (simp add: initial_scores_def builder_eval solve_eval
        cong: eval_congs and_then_weak_cong)
  moreover have "Solve clash_draws school small_run two_classes idle 0
     = Inr \<lparr>DivisionsTimetables = Timetables monday_swapped\<rparr>"
    by (simp add: monday_swapped_def builder_eval solve_eval
        cong: eval_congs and_then_weak_cong)
  moreover have "fitness school monday_swapped two_classes = Inr 2000"
    by code_simp
  moreover have "(1000 :: go_int) <s 2000"
    by (simp add: word_sless_alt)
  ultimately show ?thesis by blast
qed

text \<open>
  C7. The child of the two individuals of a population: \<open>crossover\<close> gives it the first
  parent's days with Tuesday taken from the second parent, so the child is not the first
  parent; \<open>mutate\<close> then swaps the child's two Monday periods. The swap is made in the
  backing array the child shares with the first parent, whose Monday is swapped as well.
\<close>

theorem mutation_changes_parent:
  "fst first_population
     = [[Arr5 0 1 2 3 4, Arr5 5 6 7 8 9], [Arr5 10 11 12 13 14, Arr5 15 16 17 18 19]] \<and>
   load (fst (snd first_population)) (fst first_population ! 0) = monday_first \<and>
   map_sum id fst (crossover (fst first_population ! 0) (fst first_population ! 1)
                      (snd (snd first_population)))
     = Inr [Arr5 0 11 2 3 4, Arr5 5 6 7 8 9] \<and>
   parent_after small_run (fst first_population ! 0) (fst first_population ! 1)
      (snd first_population) = Inr monday_swapped \<and>
   monday_first \<noteq> monday_swapped"
proof -
  have pop: "first_population
     = ([[Arr5 0 1 2 3 4, Arr5 5 6 7 8 9], [Arr5 10 11 12 13 14, Arr5 15 16 17 18 19]],
        snd first_population)"
    by (simp add: first_population_def builder_eval solve_eval
        cong: eval_congs and_then_weak_cong)
  have 1: "fst first_population
     = [[Arr5 0 1 2 3 4, Arr5 5 6 7 8 9], [Arr5 10 11 12 13 14, Arr5 15 16 17 18 19]]"
    by (subst pop) simp
  have 2: "load (fst (snd first_population)) (fst first_population ! 0) = monday_first"
    by (simp add: first_population_def monday_first_def builder_eval solve_eval
        cong: eval_congs and_then_weak_cong)
  have 3: "map_sum id fst (crossover (fst first_population ! 0) (fst first_population ! 1)
                      (snd (snd first_population)))
     = Inr [Arr5 0 11 2 3 4, Arr5 5 6 7 8 9]"
    by (simp add: first_population_def builder_eval solve_eval
        cong: eval_congs and_then_weak_cong)
  have 4: "parent_after small_run (fst first_population ! 0) (fst first_population ! 1)
      (snd first_population) = Inr monday_swapped"
    by (simp add: first_population_def parent_after_def monday_swapped_def builder_eval solve_eval
        cong: eval_congs and_then_weak_cong)
  have 5: "monday_first \<noteq> monday_swapped"
    by (simp add: monday_first_def monday_swapped_def new_period_def)
  from 1 2 3 4 5 show ?thesis by blast
qed

text \<open>
  C8. With \<open>PopulationSize = 0\<close> the population is empty and \<open>pop[0]\<close> panics, whatever
  the instance. With \<open>PopulationSize = 1\<close> the selection keeps \<open>1/2 = 0\<close> individuals and
  the reproduction loop calls \<open>rand.Intn(0)\<close>, which panics, as soon as a generation is run
  on an individual whose score is not 0.
\<close>

theorem Solve_panics:
  "Solve seeded mem (s\<lparr>PopulationSize := 0\<rparr>) inp global now = Inl IndexOutOfRange \<and>
   Solve clash_draws school (small_run\<lparr>PopulationSize := 1\<rparr>) two_classes idle 0
     = Inl IntnInvalidArgument"
proof -
  have "Solve seeded mem (s\<lparr>PopulationSize := 0\<rparr>) inp global now = Inl IndexOutOfRange"
    by (simp add: Solve_def initializePopulation_def and_then_def)
  moreover have "Solve clash_draws school (small_run\<lparr>PopulationSize := 1\<rparr>) two_classes idle 0
     = Inl IntnInvalidArgument"
    by (simp add: builder_eval solve_eval cong: eval_congs and_then_weak_cong)
  ultimately show ?thesis by blast
qed



end
